theory Spec2Isabelle
  imports Main "HOL-Library.Word"
begin

unbundle bit_operations_syntax

section \<open>USI I2C slave: the data of i2c_machine.c\<close>

type_synonym u8 = "8 word"

subsection \<open>Constants\<close>

text \<open>
  The protocol states, as the \<^verbatim>\<open>#define\<close>s of i2c_machine.c give them. The state
  variable is a \<^verbatim>\<open>uint8_t\<close>, so it is kept as a byte here and the states are numerals.
\<close>

abbreviation (input) I2C_STATE_ADDR_MATCH :: u8 where "I2C_STATE_ADDR_MATCH \<equiv> 0"
abbreviation (input) I2C_STATE_REG_ADDR :: u8 where "I2C_STATE_REG_ADDR \<equiv> 1"
abbreviation (input) I2C_STATE_MASTER_READ :: u8 where "I2C_STATE_MASTER_READ \<equiv> 2"
abbreviation (input) I2C_STATE_MASTER_WRITE :: u8 where "I2C_STATE_MASTER_WRITE \<equiv> 3"
abbreviation (input) I2C_STATE_IDLE :: u8 where "I2C_STATE_IDLE \<equiv> 4"

abbreviation (input) I2C_SDA_DIR_OUT :: u8 where "I2C_SDA_DIR_OUT \<equiv> 1"
abbreviation (input) I2C_SDA_DIR_IN :: u8 where "I2C_SDA_DIR_IN \<equiv> 0"

text \<open>
  Bit positions of the USI control and status registers. They come from
  \<^verbatim>\<open>avr/io.h\<close>, which i2c_machine.c includes and which belongs to the toolchain;
  the values are those of the USI peripheral (USICR: USISIE 7, USIOIE 6, USIWM0 4,
  USICS1 3; USISR: USISIF 7, USIOIF 6, USIPF 5, USIDC 4, USICNT0 0).
\<close>

abbreviation (input) USISIE :: nat where "USISIE \<equiv> 7"
abbreviation (input) USIOIE :: nat where "USIOIE \<equiv> 6"
abbreviation (input) USIWM0 :: nat where "USIWM0 \<equiv> 4"
abbreviation (input) USICS1 :: nat where "USICS1 \<equiv> 3"
abbreviation (input) USISIF :: nat where "USISIF \<equiv> 7"
abbreviation (input) USIOIF :: nat where "USIOIF \<equiv> 6"
abbreviation (input) USIPF :: nat where "USIPF \<equiv> 5"
abbreviation (input) USIDC :: nat where "USIDC \<equiv> 4"
abbreviation (input) USICNT0 :: nat where "USICNT0 \<equiv> 0"

subsection \<open>Build configuration (i2c_slave_defs.h)\<close>

text \<open>
  The write mask is a compile-time choice: either the macro
  \<^verbatim>\<open>I2C_GLOBAL_WRITE_MASK\<close> or the application's array \<^verbatim>\<open>i2c_w_mask[I2C_N_REG]\<close>.
  The macros are C integer constants, hence \<^typ>\<open>int\<close>.
\<close>

datatype write_mask = I2C_GLOBAL_WRITE_MASK int | i2c_w_mask "u8 list"

record defs =
  I2C_SDA :: nat
  I2C_SCL :: nat
  I2C_N_REG :: int
  I2C_SLAVE_ADDR :: int
  w_mask :: write_mask

subsection \<open>State\<close>

text \<open>
  The three globals of i2c_machine.c, the static \<^verbatim>\<open>post_ack\<close> of the overflow
  handler, the application's register array, the hardware registers the code touches
  (\<^verbatim>\<open>USI_DDR\<close> and \<^verbatim>\<open>USI_PORT\<close> are DDRB and PORTB in both configurations) and the
  global interrupt enable bit that \<^verbatim>\<open>cli()\<close> and \<^verbatim>\<open>sei()\<close> switch.
\<close>

record i2c =
  i2c_update :: u8
  i2c_state :: u8
  i2c_offset :: u8
  post_ack :: u8
  i2c_reg :: "u8 list"
  USIDR :: u8
  USISR :: u8
  USICR :: u8
  USI_DDR :: u8
  USI_PORT :: u8
  SREG_I :: bool

text \<open>
  The statically initialised globals (all zero) over a given register array, with the
  hardware registers at their reset value and interrupts enabled by the application.
\<close>

definition power_on :: "u8 list \<Rightarrow> i2c" where
  "power_on regs =
     \<lparr>i2c_update = 0, i2c_state = 0, i2c_offset = 0, post_ack = 0, i2c_reg = regs,
      USIDR = 0, USISR = 0, USICR = 0, USI_DDR = 0, USI_PORT = 0, SREG_I = True\<rparr>"

datatype fault = Out_of_bounds | Start_handler_spinning

section \<open>Hardware access\<close>

text \<open>
  Modelled from the spec: the USI status register is write-sensitive and the peripheral
  itself is hardware, not code. Writing a 1 to the start, overflow or stop flag clears
  it, the data-collision bit is read-only, and the low nibble written becomes the
  4-bit counter.
\<close>

definition write_USISR :: "u8 \<Rightarrow> i2c \<Rightarrow> i2c" where
  "write_USISR v s =
     s\<lparr>USISR := (USISR s AND NOT v AND 0xE0) OR (USISR s AND 0x10) OR (v AND 0x0F)\<rparr>"

definition NAK :: "i2c \<Rightarrow> i2c" where
  "NAK s = s\<lparr>USIDR := 0x80\<rparr>"

definition ACK :: "i2c \<Rightarrow> i2c" where
  "ACK s = s\<lparr>USIDR := 0x00\<rparr>"

section \<open>The start handler\<close>

text \<open>
  \<^verbatim>\<open>while (PINB & (1 << I2C_SCL));\<close> reads the volatile input register until SCL is
  low. The successive readings are the list; the loop that has not seen SCL low when the
  readings are used up has not returned.
\<close>

fun wait_scl_low :: "defs \<Rightarrow> u8 list \<Rightarrow> unit option" where
  "wait_scl_low d [] = None"
| "wait_scl_low d (pinb # rest) =
     (if pinb AND push_bit (I2C_SCL d) 1 \<noteq> 0 then wait_scl_low d rest else Some ())"

definition USI_START_vect :: "defs \<Rightarrow> u8 list \<Rightarrow> i2c \<Rightarrow> i2c option" where
  "USI_START_vect d pinb s =
     (let s1 = s\<lparr>i2c_state := 0\<rparr> in
      case wait_scl_low d pinb of
        None \<Rightarrow> None
      | Some _ \<Rightarrow> Some (write_USISR 0xF0 s1))"

section \<open>The overflow handler\<close>

text \<open>
  \<^verbatim>\<open>tmp = I2C_GLOBAL_WRITE_MASK;\<close> or \<^verbatim>\<open>tmp = i2c_w_mask[i2c_offset];\<close>. Reading
  past the end of the array is undefined in C and a fault here.
\<close>

definition load_mask :: "defs \<Rightarrow> u8 \<Rightarrow> fault + u8" where
  "load_mask d off =
     (case w_mask d of
        I2C_GLOBAL_WRITE_MASK m \<Rightarrow> Inr (word_of_int m)
      | i2c_w_mask ms \<Rightarrow>
          if unat off < length ms then Inr (ms ! unat off) else Inl Out_of_bounds)"

text \<open>
  \<^verbatim>\<open>i2c_reg[i2c_offset] &= ~tmp; i2c_reg[i2c_offset] |= USIDR & tmp;\<close>
\<close>

definition heed_writeable_bits :: "u8 \<Rightarrow> i2c \<Rightarrow> fault + i2c" where
  "heed_writeable_bits tmp s =
     (let i = unat (i2c_offset s) in
      if i < length (i2c_reg s) then
        let r1 = (i2c_reg s)[i := (i2c_reg s) ! i AND NOT tmp];
            r2 = r1[i := r1 ! i OR (USIDR s AND tmp)]
        in Inr (s\<lparr>i2c_reg := r2\<rparr>)
      else Inl Out_of_bounds)"

text \<open>
  Work before the ACK cycle: the \<^verbatim>\<open>switch (i2c_state)\<close> of the first branch. The
  result is the new state with the SDA direction chosen.
\<close>

definition pre_ack_work :: "defs \<Rightarrow> i2c \<Rightarrow> fault + (i2c \<times> u8)" where
  "pre_ack_work d s =
     (if i2c_state s = I2C_STATE_ADDR_MATCH then
        (let tmp = drop_bit 1 (USIDR s) in
         if tmp \<noteq> 0 \<and> uint tmp \<noteq> I2C_SLAVE_ADDR d then
           Inr (NAK (s\<lparr>i2c_state := I2C_STATE_IDLE\<rparr>), I2C_SDA_DIR_OUT)
         else if USIDR s AND 1 \<noteq> 0 then
           Inr (ACK (s\<lparr>i2c_state := I2C_STATE_MASTER_READ\<rparr>), I2C_SDA_DIR_OUT)
         else
           Inr (ACK (s\<lparr>i2c_offset := 0, i2c_state := I2C_STATE_REG_ADDR, i2c_update := 1\<rparr>),
                I2C_SDA_DIR_OUT))
      else if i2c_state s = I2C_STATE_REG_ADDR then
        (if uint (USIDR s) > I2C_N_REG d - 1 then
           Inr (NAK (s\<lparr>i2c_state := I2C_STATE_IDLE\<rparr>), I2C_SDA_DIR_OUT)
         else
           Inr (ACK (s\<lparr>i2c_offset := USIDR s, i2c_state := I2C_STATE_MASTER_WRITE\<rparr>),
                I2C_SDA_DIR_OUT))
      else if i2c_state s = I2C_STATE_MASTER_READ then
        Inr (s\<lparr>USIDR := 0\<rparr>, I2C_SDA_DIR_IN)
      else if i2c_state s = I2C_STATE_MASTER_WRITE then
        (case load_mask d (i2c_offset s) of
           Inl e \<Rightarrow> Inl e
         | Inr tmp \<Rightarrow>
             (case (if tmp \<noteq> 0 then heed_writeable_bits tmp s else Inr s) of
                Inl e \<Rightarrow> Inl e
              | Inr s1 \<Rightarrow>
                  Inr (ACK (s1\<lparr>i2c_update := i2c_update s1 + 1,
                                i2c_offset := i2c_offset s1 + 1\<rparr>),
                       I2C_SDA_DIR_OUT)))
      else
        Inr (NAK s, I2C_SDA_DIR_OUT))"

text \<open>
  Work after the ACK cycle: only \<^verbatim>\<open>I2C_STATE_MASTER_READ\<close> has a case.
  \<^verbatim>\<open>USIDR = i2c_reg[i2c_offset++];\<close> reads the array, so the index is checked.
\<close>

definition post_ack_work :: "defs \<Rightarrow> i2c \<Rightarrow> fault + (i2c \<times> u8)" where
  "post_ack_work d s =
     (if i2c_state s = I2C_STATE_MASTER_READ then
        (if USIDR s \<noteq> 0 then
           Inr (s\<lparr>i2c_offset := 0, i2c_state := I2C_STATE_IDLE\<rparr>, I2C_SDA_DIR_IN)
         else if unat (i2c_offset s) < length (i2c_reg s) then
           Inr (s\<lparr>USIDR := i2c_reg s ! unat (i2c_offset s),
                   i2c_offset := i2c_offset s + 1\<rparr>, I2C_SDA_DIR_OUT)
         else Inl Out_of_bounds)
      else Inr (s, I2C_SDA_DIR_IN))"

text \<open>
  The handler: one of the two phases, then the clamp of \<^verbatim>\<open>i2c_offset\<close>, the SDA
  direction and the write of the status register (\<^verbatim>\<open>0xD0 | 14 << USICNT0\<close> after the
  first phase, \<^verbatim>\<open>0xD0\<close> after the second).
\<close>

definition finish_overflow :: "defs \<Rightarrow> u8 \<Rightarrow> u8 \<Rightarrow> i2c \<Rightarrow> i2c" where
  "finish_overflow d usisr_tmp sda_direction s =
     (let s1 = (if uint (i2c_offset s) > I2C_N_REG d - 1 then s\<lparr>i2c_offset := 0\<rparr> else s);
          s2 = (if sda_direction = I2C_SDA_DIR_OUT
                then s1\<lparr>USI_DDR := USI_DDR s1 OR push_bit (I2C_SDA d) 1\<rparr>
                else s1\<lparr>USI_DDR := USI_DDR s1 AND NOT (push_bit (I2C_SDA d) 1)\<rparr>)
      in write_USISR usisr_tmp s2)"

definition USI_OVERFLOW_vect :: "defs \<Rightarrow> i2c \<Rightarrow> fault + i2c" where
  "USI_OVERFLOW_vect d s =
     (if post_ack s = 0 then
        (case pre_ack_work d s of
           Inl e \<Rightarrow> Inl e
         | Inr (s1, sda_direction) \<Rightarrow>
             Inr (finish_overflow d (0xD0 OR push_bit USICNT0 14) sda_direction
                    (s1\<lparr>post_ack := 1\<rparr>)))
      else
        (case post_ack_work d s of
           Inl e \<Rightarrow> Inl e
         | Inr (s1, sda_direction) \<Rightarrow>
             Inr (finish_overflow d 0xD0 sda_direction (s1\<lparr>post_ack := 0\<rparr>))))"

section \<open>The application interface\<close>

definition i2c_init :: "defs \<Rightarrow> i2c \<Rightarrow> i2c" where
  "i2c_init d s =
     (let s1 = s\<lparr>i2c_state := 0\<rparr>;
          s2 = s1\<lparr>USICR := push_bit USISIE 1 OR push_bit USIOIE 1 OR push_bit USIWM0 3
                              OR push_bit USICS1 1\<rparr>;
          s3 = s2\<lparr>USI_DDR := USI_DDR s2 OR push_bit (I2C_SCL d) 1\<rparr>;
          s4 = s3\<lparr>USI_DDR := USI_DDR s3 AND NOT (push_bit (I2C_SDA d) 1)\<rparr>;
          s5 = s4\<lparr>USI_PORT := USI_PORT s4 OR (push_bit (I2C_SDA d) 1 OR push_bit (I2C_SCL d) 1)\<rparr>
      in write_USISR 0xF0 s5)"

definition i2c_transaction_ongoing :: "i2c \<Rightarrow> u8" where
  "i2c_transaction_ongoing s =
     (if i2c_state s \<noteq> I2C_STATE_IDLE \<and> i2c_state s \<noteq> I2C_STATE_ADDR_MATCH then 1 else 0)"

text \<open>The result is the returned byte and the state left behind.\<close>

definition i2c_check_stop :: "i2c \<Rightarrow> u8 \<times> i2c" where
  "i2c_check_stop s =
     (let ret = 0 in
      if i2c_state s = I2C_STATE_MASTER_WRITE \<and> i2c_update s \<noteq> 0 then
        (let s1 = s\<lparr>SREG_I := False\<rparr>;
             tmp = USISR s1;
             (ret, s2) = (if tmp AND push_bit USIPF 1 \<noteq> 0
                          then (i2c_update s1,
                                s1\<lparr>i2c_state := I2C_STATE_IDLE, i2c_update := 0\<rparr>)
                          else (ret, s1))
         in (ret, s2\<lparr>SREG_I := True\<rparr>))
      else (ret, s))"

section \<open>The environment of the engine\<close>

text \<open>
  What happens to the engine between two observations. A START raises the start flag
  and the start handler runs, reading the pin register as often as the list is long.
  A counter overflow raises the overflow flag with the counter back at 0 and the shift
  register holding what was clocked in; the overflow handler runs. A STOP raises the
  stop flag and runs no handler. The application calls the three functions of
  i2c_machine.h; \<^verbatim>\<open>i2c_transaction_ongoing()\<close> only reads.
\<close>

datatype event =
  Start_cond "u8 list" | Overflow u8 | Stop_cond
| Call_init | Call_check_stop | Call_transaction_ongoing

fun step :: "defs \<Rightarrow> event \<Rightarrow> i2c \<Rightarrow> fault + i2c" where
  "step d (Start_cond pinb) s =
     (case USI_START_vect d pinb (s\<lparr>USISR := USISR s OR push_bit USISIF 1\<rparr>) of
        None \<Rightarrow> Inl Start_handler_spinning
      | Some s' \<Rightarrow> Inr s')"
| "step d (Overflow v) s =
     USI_OVERFLOW_vect d (s\<lparr>USIDR := v, USISR := (USISR s OR push_bit USIOIF 1) AND 0xF0\<rparr>)"
| "step d Stop_cond s = Inr (s\<lparr>USISR := USISR s OR push_bit USIPF 1\<rparr>)"
| "step d Call_init s = Inr (i2c_init d s)"
| "step d Call_check_stop s = Inr (snd (i2c_check_stop s))"
| "step d Call_transaction_ongoing s = (let r = i2c_transaction_ongoing s in Inr s)"

fun run :: "defs \<Rightarrow> event list \<Rightarrow> i2c \<Rightarrow> fault + i2c" where
  "run d [] s = Inr s"
| "run d (e # es) s = (case step d e s of Inl f \<Rightarrow> Inl f | Inr s' \<Rightarrow> run d es s')"

text \<open>
  A byte on the wire is two overflows: one after its eight bits, one after the ACK
  slot, when the shift register holds whatever the ninth clock left in it. A run of
  data bytes is given with the shift register contents of each ACK slot.
\<close>

definition byte :: "u8 \<Rightarrow> u8 \<Rightarrow> event list" where
  "byte b a = [Overflow b, Overflow a]"

fun data :: "(u8 \<times> u8) list \<Rightarrow> event list" where
  "data [] = []"
| "data ((b, a) # bs) = byte b a @ data bs"

subsection \<open>Interrupts during the stop poller\<close>

text \<open>
  \<^verbatim>\<open>i2c_check_stop()\<close> runs in the main loop, so the two handlers can interrupt it
  between any two of its statements. A START or a counter overflow is served at once
  when the global interrupt enable bit is set; after \<^verbatim>\<open>cli()\<close> it is held, in order of
  arrival, until \<^verbatim>\<open>sei()\<close>. (A held request counts as arriving when it is served; the
  poller reads nothing but the stop flag meanwhile.) A STOP has no handler: the hardware
  raises the stop flag at once, whatever the enable bit is.
\<close>

datatype bus_event = Bus_start "u8 list" | Bus_overflow u8 | Bus_stop

fun event_of :: "bus_event \<Rightarrow> event" where
  "event_of (Bus_start pinb) = Start_cond pinb"
| "event_of (Bus_overflow v) = Overflow v"
| "event_of Bus_stop = Stop_cond"

text \<open>The events that arrive at one point, with the requests held so far.\<close>

fun arrive ::
  "defs \<Rightarrow> bus_event list \<Rightarrow> bus_event list \<times> i2c \<Rightarrow> fault + bus_event list \<times> i2c" where
  "arrive d [] (pending, s) = Inr (pending, s)"
| "arrive d (e # es) (pending, s) =
     (if e \<noteq> Bus_stop \<and> \<not> SREG_I s then arrive d es (pending @ [e], s)
      else case step d (event_of e) s of
             Inl f \<Rightarrow> Inl f
           | Inr s' \<Rightarrow> arrive d es (pending, s'))"

text \<open>
  What arrives before each statement of \<^verbatim>\<open>i2c_check_stop()\<close> after the read of
  \<^verbatim>\<open>i2c_state\<close>: before the read of \<^verbatim>\<open>i2c_update\<close>, before \<^verbatim>\<open>cli()\<close>, before
  \<^verbatim>\<open>tmp = USISR\<close>, before \<^verbatim>\<open>i2c_state = I2C_STATE_IDLE\<close>, before
  \<^verbatim>\<open>ret = i2c_update\<close>, before \<^verbatim>\<open>i2c_update = 0\<close> and before \<^verbatim>\<open>sei()\<close>. What
  arrives before the call or after it is an ordinary run of events.
\<close>

record schedule =
  at_test_update :: "bus_event list"
  at_cli :: "bus_event list"
  at_read_USISR :: "bus_event list"
  at_set_idle :: "bus_event list"
  at_snapshot :: "bus_event list"
  at_clear :: "bus_event list"
  at_sei :: "bus_event list"

definition no_requests :: schedule where
  "no_requests =
     \<lparr>at_test_update = [], at_cli = [], at_read_USISR = [], at_set_idle = [],
      at_snapshot = [], at_clear = [], at_sei = []\<rparr>"

text \<open>
  \<^verbatim>\<open>i2c_check_stop()\<close> statement by statement. \<^verbatim>\<open>&&\<close> reads \<^verbatim>\<open>i2c_update\<close> only when
  the state is MASTER_WRITE. The result is the returned byte, the requests still held
  when \<^verbatim>\<open>sei()\<close> has run (they are served next) and the state at that moment.
\<close>

definition i2c_check_stop_irq ::
  "defs \<Rightarrow> schedule \<Rightarrow> i2c \<Rightarrow> fault + u8 \<times> bus_event list \<times> i2c" where
  "i2c_check_stop_irq d sch s =
     (let ret = 0 in
      if i2c_state s \<noteq> I2C_STATE_MASTER_WRITE then Inr (ret, [], s)
      else case arrive d (at_test_update sch) ([], s) of
        Inl f \<Rightarrow> Inl f
      | Inr (p1, s1) \<Rightarrow>
      if i2c_update s1 = 0 then Inr (ret, p1, s1)
      else case arrive d (at_cli sch) (p1, s1) of
        Inl f \<Rightarrow> Inl f
      | Inr (p2, s2) \<Rightarrow>
      case arrive d (at_read_USISR sch) (p2, s2\<lparr>SREG_I := False\<rparr>) of
        Inl f \<Rightarrow> Inl f
      | Inr (p3, s3) \<Rightarrow>
      let tmp = USISR s3 in
      if tmp AND push_bit USIPF 1 \<noteq> 0 then
        case arrive d (at_set_idle sch) (p3, s3) of
          Inl f \<Rightarrow> Inl f
        | Inr (p4, s4) \<Rightarrow>
        case arrive d (at_snapshot sch) (p4, s4\<lparr>i2c_state := I2C_STATE_IDLE\<rparr>) of
          Inl f \<Rightarrow> Inl f
        | Inr (p5, s5) \<Rightarrow>
        let ret = i2c_update s5 in
        case arrive d (at_clear sch) (p5, s5) of
          Inl f \<Rightarrow> Inl f
        | Inr (p6, s6) \<Rightarrow>
        case arrive d (at_sei sch) (p6, s6\<lparr>i2c_update := 0\<rparr>) of
          Inl f \<Rightarrow> Inl f
        | Inr (p7, s7) \<Rightarrow> Inr (ret, p7, s7\<lparr>SREG_I := True\<rparr>)
      else
        case arrive d (at_sei sch) (p3, s3) of
          Inl f \<Rightarrow> Inl f
        | Inr (p7, s7) \<Rightarrow> Inr (ret, p7, s7\<lparr>SREG_I := True\<rparr>))"

text \<open>The stop flag after the STOPs among some events, when no handler has run.\<close>

definition raise_stops :: "bus_event list \<Rightarrow> i2c \<Rightarrow> i2c" where
  "raise_stops es s =
     s\<lparr>USISR := (if Bus_stop \<in> set es then USISR s OR push_bit USIPF 1 else USISR s)\<rparr>"

text \<open>
  The stop flag as the poller reads it when no handler runs before the read: set on
  entry, or raised by a STOP that arrives before \<^verbatim>\<open>tmp = USISR\<close>.
\<close>

definition stop_flag_read :: "schedule \<Rightarrow> i2c \<Rightarrow> bool" where
  "stop_flag_read sch s \<longleftrightarrow>
     USISR s AND push_bit USIPF 1 \<noteq> 0 \<or>
     Bus_stop \<in> set (at_test_update sch @ at_cli sch @ at_read_USISR sch)"

text \<open>The interrupt requests that arrive between \<^verbatim>\<open>cli()\<close> and \<^verbatim>\<open>sei()\<close>.\<close>

definition held :: "schedule \<Rightarrow> bus_event list" where
  "held sch =
     filter (\<lambda>e. e \<noteq> Bus_stop)
       (at_read_USISR sch @ at_set_idle sch @ at_snapshot sch @ at_clear sch @ at_sei sch)"

subsection \<open>Configurations and states of the examples\<close>

text \<open>
  The second configuration header of the repository (two registers, slave address
  0x40, SDA on pin 0, SCL on pin 2, no global mask), with the application's mask array
  of the end-to-end scenarios; the same with the second register read-only; and the
  first header (52 registers, SDA on pin 5, SCL on pin 7, global mask 0xFF).
\<close>

definition scenario_defs :: defs where
  "scenario_defs =
     \<lparr>I2C_SDA = 0, I2C_SCL = 2, I2C_N_REG = 2, I2C_SLAVE_ADDR = 0x40,
      w_mask = i2c_w_mask [0xFF, 0x0F]\<rparr>"

definition locked_defs :: defs where
  "locked_defs =
     \<lparr>I2C_SDA = 0, I2C_SCL = 2, I2C_N_REG = 2, I2C_SLAVE_ADDR = 0x40,
      w_mask = i2c_w_mask [0xFF, 0x00]\<rparr>"

definition led_defs :: defs where
  "led_defs =
     \<lparr>I2C_SDA = 5, I2C_SCL = 7, I2C_N_REG = 4 + 16 * 3, I2C_SLAVE_ADDR = 0x40,
      w_mask = I2C_GLOBAL_WRITE_MASK 0xFF\<rparr>"

text \<open>The scenarios start after \<^verbatim>\<open>i2c_init()\<close>, with both registers 0.\<close>

definition scenario_start :: i2c where
  "scenario_start = i2c_init scenario_defs (power_on [0x00, 0x00])"

text \<open>
  The state in the middle of a write, when the address byte 0x80 and the register
  offset 0x01 have been acknowledged.
\<close>

definition mid_write :: i2c where
  "mid_write =
     \<lparr>i2c_update = 1, i2c_state = I2C_STATE_MASTER_WRITE, i2c_offset = 1, post_ack = 0,
      i2c_reg = [0x00, 0x00], USIDR = 0, USISR = 0, USICR = 0xF8, USI_DDR = 4,
      USI_PORT = 5, SREG_I = True\<rparr>"

text \<open>
  The first configuration in the middle of a write, when the address byte and the
  register offset 51 (the last register) have been acknowledged and the shift register
  holds 0xAB.
\<close>

definition led_last :: i2c where
  "led_last =
     \<lparr>i2c_update = 1, i2c_state = I2C_STATE_MASTER_WRITE, i2c_offset = 51, post_ack = 0,
      i2c_reg = replicate 52 0x00, USIDR = 0xAB, USISR = 0, USICR = 0xF8, USI_DDR = 0x80,
      USI_PORT = 0xA0, SREG_I = True\<rparr>"

subsection \<open>Predicates of the statements\<close>

text \<open>
  The array and the mask array have \<^verbatim>\<open>I2C_N_REG\<close> elements, as i2c_machine.h declares
  them, and the byte-wide offset can reach every one of them.
\<close>

definition well_formed :: "defs \<Rightarrow> i2c \<Rightarrow> bool" where
  "well_formed d s \<longleftrightarrow>
     1 \<le> I2C_N_REG d \<and> I2C_N_REG d \<le> 256 \<and> int (length (i2c_reg s)) = I2C_N_REG d \<and>
     (case w_mask d of
        I2C_GLOBAL_WRITE_MASK m \<Rightarrow> True
      | i2c_w_mask ms \<Rightarrow> length ms = length (i2c_reg s))"

definition offset_in_range :: "defs \<Rightarrow> i2c \<Rightarrow> bool" where
  "offset_in_range d s \<longleftrightarrow> uint (i2c_offset s) < I2C_N_REG d"

text \<open>Bit \<open>p\<close> of the write mask that applies to register \<open>r\<close> is 0.\<close>

definition read_only :: "defs \<Rightarrow> nat \<Rightarrow> nat \<Rightarrow> bool" where
  "read_only d r p =
     (case w_mask d of
        I2C_GLOBAL_WRITE_MASK m \<Rightarrow> \<not> bit (word_of_int m :: u8) p
      | i2c_w_mask ms \<Rightarrow> r < length ms \<and> \<not> bit (ms ! r) p)"

text \<open>
  An address byte that the engine takes as its own with the R/W bit 0: the seven
  address bits are the slave address or all zero.
\<close>

definition write_address :: "defs \<Rightarrow> u8 \<Rightarrow> bool" where
  "write_address d b \<longleftrightarrow>
     (drop_bit 1 b = 0 \<or> uint (drop_bit 1 b) = I2C_SLAVE_ADDR d) \<and> b AND 1 = 0"

section \<open>Initialisation\<close>

text \<open>
  C1 (as the source has it). After \<^verbatim>\<open>i2c_init()\<close> the protocol state is
  \<^verbatim>\<open>I2C_STATE_ADDR_MATCH\<close> (the value 0 that the function assigns, which is also the
  static initial value of \<^verbatim>\<open>i2c_state\<close>), for every configuration and every state it
  is called in.
\<close>

theorem i2c_init_state: "i2c_state (i2c_init d s) = I2C_STATE_ADDR_MATCH"
  by (simp add: i2c_init_def write_USISR_def Let_def)

text \<open>
  C1, counterexample. In the scenario configuration, from the power-on state, the
  protocol state after \<^verbatim>\<open>i2c_init()\<close> is not \<^verbatim>\<open>I2C_STATE_IDLE\<close>.
\<close>

theorem i2c_init_not_idle:
  "i2c_state (i2c_init scenario_defs (power_on [0, 0])) \<noteq> I2C_STATE_IDLE"
  by (simp add: i2c_init_def write_USISR_def Let_def power_on_def)

section \<open>Facts about the handlers\<close>

lemma offset_wrap:
  fixes w :: u8
  assumes "N \<le> 256" and "uint w < N"
  shows "unat (if uint (w + 1) > N - 1 then 0 else w + 1) = (unat w + 1) mod nat N"
proof -
  have u: "uint (w + 1) = (uint w + 1) mod 256"
    by (simp add: uint_word_ariths)
  have b: "0 \<le> uint w" "uint w < 256"
    using uint_lt2p [of w] by simp_all
  have n: "unat w = nat (uint w)" "unat (w + 1) = nat (uint (w + 1))"
    by simp_all
  have s: "nat (uint w) + 1 = nat (uint w + 1)"
    using b by linarith
  show ?thesis
  proof (cases "uint w + 1 = N")
    case True
    have m: "(unat w + 1) mod nat N = 0"
      unfolding n s True by simp
    show ?thesis
    proof (cases "uint w = 255")
      case True
      then have "uint (w + 1) = 0" unfolding u by simp
      then have "w + 1 = 0" by (simp add: word_uint_eq_iff)
      then show ?thesis unfolding m by simp
    next
      case False
      with b have "uint w + 1 < 256" by linarith
      then have "uint (w + 1) = uint w + 1" unfolding u using b by simp
      then have "uint (w + 1) > N - 1" using True by linarith
      then show ?thesis unfolding m by simp
    qed
  next
    case False
    with assms b have lt: "uint w + 1 < N" by linarith
    with assms have "uint w + 1 < 256" by linarith
    then have e: "uint (w + 1) = uint w + 1" unfolding u using b by simp
    then have c: "\<not> uint (w + 1) > N - 1" using lt by linarith
    have "nat (uint w + 1) < nat N" using lt b by linarith
    then have "(unat w + 1) mod nat N = nat (uint w + 1)"
      unfolding n s by simp
    moreover have "unat (w + 1) = nat (uint w + 1)"
      unfolding n e ..
    ultimately show ?thesis using c by simp
  qed
qed

lemma finish_overflow_keeps:
  "i2c_state (finish_overflow d u dir s) = i2c_state s"
  "i2c_update (finish_overflow d u dir s) = i2c_update s"
  "i2c_reg (finish_overflow d u dir s) = i2c_reg s"
  "post_ack (finish_overflow d u dir s) = post_ack s"
  "USIDR (finish_overflow d u dir s) = USIDR s"
  "SREG_I (finish_overflow d u dir s) = SREG_I s"
  "i2c_offset (finish_overflow d u dir s) =
     (if uint (i2c_offset s) > I2C_N_REG d - 1 then 0 else i2c_offset s)"
  "USI_DDR (finish_overflow d u dir s) =
     (if dir = 1 then USI_DDR s OR push_bit (I2C_SDA d) 1
      else USI_DDR s AND NOT (push_bit (I2C_SDA d) 1))"
  by (simp_all add: finish_overflow_def write_USISR_def Let_def)

lemma well_formed_index:
  assumes "well_formed d s" and "offset_in_range d s"
  shows "unat (i2c_offset s) < length (i2c_reg s)"
proof -
  have "int (unat (i2c_offset s)) < int (length (i2c_reg s))"
    using assms by (simp add: well_formed_def offset_in_range_def)
  then show ?thesis by linarith
qed

lemma load_mask_total:
  assumes "well_formed d s" and "offset_in_range d s"
  shows "\<exists>m. load_mask d (i2c_offset s) = Inr m"
  using well_formed_index [OF assms] assms(1)
  by (auto simp: load_mask_def well_formed_def split: write_mask.splits)

lemma pre_ack_master_write:
  assumes st: "i2c_state s = I2C_STATE_MASTER_WRITE"
    and m: "load_mask d (i2c_offset s) = Inr m"
    and i: "unat (i2c_offset s) < length (i2c_reg s)"
  shows "pre_ack_work d s =
           Inr (s\<lparr>i2c_reg := (i2c_reg s)[unat (i2c_offset s) :=
                       (i2c_reg s ! unat (i2c_offset s) AND NOT m) OR (USIDR s AND m)],
                   i2c_update := i2c_update s + 1, i2c_offset := i2c_offset s + 1,
                   USIDR := 0\<rparr>, I2C_SDA_DIR_OUT)"
proof (cases "m = 0")
  case True
  then show ?thesis using st m
    by (simp add: pre_ack_work_def ACK_def)
next
  case False
  then show ?thesis using st m i
    by (simp add: pre_ack_work_def ACK_def heed_writeable_bits_def Let_def)
qed

lemma overflow_master_write:
  assumes "post_ack s = 0" and "i2c_state s = I2C_STATE_MASTER_WRITE"
    and "load_mask d (i2c_offset s) = Inr m"
    and "unat (i2c_offset s) < length (i2c_reg s)"
  shows "USI_OVERFLOW_vect d s =
           Inr (finish_overflow d (0xD0 OR push_bit USICNT0 14) I2C_SDA_DIR_OUT
                 (s\<lparr>i2c_reg := (i2c_reg s)[unat (i2c_offset s) :=
                       (i2c_reg s ! unat (i2c_offset s) AND NOT m) OR (USIDR s AND m)],
                    i2c_update := i2c_update s + 1, i2c_offset := i2c_offset s + 1,
                    USIDR := 0, post_ack := 1\<rparr>))"
  using assms(1) by (simp add: USI_OVERFLOW_vect_def pre_ack_master_write [OF assms(2-4)])

lemma overflow_post_ack_quiet:
  assumes "post_ack s \<noteq> 0" and "i2c_state s \<noteq> I2C_STATE_MASTER_READ"
  shows "USI_OVERFLOW_vect d s = Inr (finish_overflow d 0xD0 I2C_SDA_DIR_IN (s\<lparr>post_ack := 0\<rparr>))"
  using assms by (simp add: USI_OVERFLOW_vect_def post_ack_work_def)

lemma pre_ack_work_reg:
  assumes "pre_ack_work d s = Inr (s1, dir)"
  shows "i2c_reg s1 = i2c_reg s \<or>
     (i2c_state s = I2C_STATE_MASTER_WRITE \<and>
      (\<exists>m. load_mask d (i2c_offset s) = Inr m \<and> unat (i2c_offset s) < length (i2c_reg s) \<and>
           i2c_reg s1 = (i2c_reg s)[unat (i2c_offset s) :=
              (i2c_reg s ! unat (i2c_offset s) AND NOT m) OR (USIDR s AND m)]))"
  using assms
  by (auto simp: pre_ack_work_def NAK_def ACK_def heed_writeable_bits_def Let_def
      split: if_splits sum.splits)

lemma post_ack_work_reg:
  assumes "post_ack_work d s = Inr (s1, dir)"
  shows "i2c_reg s1 = i2c_reg s"
  using assms by (auto simp: post_ack_work_def split: if_splits)

lemma overflow_reg:
  assumes "USI_OVERFLOW_vect d s = Inr s'"
  shows "i2c_reg s' = i2c_reg s \<or>
     (post_ack s = 0 \<and> i2c_state s = I2C_STATE_MASTER_WRITE \<and>
      (\<exists>m. load_mask d (i2c_offset s) = Inr m \<and> unat (i2c_offset s) < length (i2c_reg s) \<and>
           i2c_reg s' = (i2c_reg s)[unat (i2c_offset s) :=
              (i2c_reg s ! unat (i2c_offset s) AND NOT m) OR (USIDR s AND m)]))"
proof (cases "post_ack s = 0")
  case True
  with assms obtain s1 dir where p: "pre_ack_work d s = Inr (s1, dir)"
    and e: "s' = finish_overflow d (0xD0 OR push_bit USICNT0 14) dir (s1\<lparr>post_ack := 1\<rparr>)"
    by (auto simp: USI_OVERFLOW_vect_def split: sum.splits)
  have "i2c_reg s' = i2c_reg s1"
    unfolding e by (simp add: finish_overflow_keeps)
  with pre_ack_work_reg [OF p] True show ?thesis by simp
next
  case False
  with assms obtain s1 dir where p: "post_ack_work d s = Inr (s1, dir)"
    and e: "s' = finish_overflow d 0xD0 dir (s1\<lparr>post_ack := 0\<rparr>)"
    by (auto simp: USI_OVERFLOW_vect_def split: sum.splits)
  have "i2c_reg s' = i2c_reg s1"
    unfolding e by (simp add: finish_overflow_keeps)
  with post_ack_work_reg [OF p] show ?thesis by simp
qed

lemma overflow_offset:
  assumes "USI_OVERFLOW_vect d s = Inr s'" and "1 \<le> I2C_N_REG d"
  shows "offset_in_range d s'"
proof -
  from assms(1) obtain u dir s1 where "s' = finish_overflow d u dir s1"
    by (auto simp: USI_OVERFLOW_vect_def split: if_splits sum.splits)
  then have "i2c_offset s' = (if uint (i2c_offset s1) > I2C_N_REG d - 1 then 0 else i2c_offset s1)"
    by (simp add: finish_overflow_keeps)
  with assms(2) show ?thesis
    by (simp add: offset_in_range_def split: if_splits)
qed

lemma overflow_total:
  assumes "well_formed d s" and "offset_in_range d s"
  shows "\<exists>s'. USI_OVERFLOW_vect d s = Inr s'"
proof -
  note i = well_formed_index [OF assms]
  obtain m where m: "load_mask d (i2c_offset s) = Inr m"
    using load_mask_total [OF assms] ..
  have "\<exists>r. pre_ack_work d s = Inr r"
  proof (cases "i2c_state s = I2C_STATE_MASTER_WRITE")
    case True
    then show ?thesis using pre_ack_master_write [OF True m i] by simp
  next
    case False
    then show ?thesis by (simp add: pre_ack_work_def Let_def)
  qed
  moreover have "\<exists>r. post_ack_work d s = Inr r"
    using i by (simp add: post_ack_work_def)
  ultimately show ?thesis
    by (auto simp: USI_OVERFLOW_vect_def)
qed

section \<open>Facts about the start handler, the application calls and runs\<close>

lemma wait_scl_low_iff:
  "wait_scl_low d pinb = Some () \<longleftrightarrow> (\<exists>p \<in> set pinb. p AND push_bit (I2C_SCL d) 1 = 0)"
  by (induction pinb) auto

lemma start_fields:
  assumes "USI_START_vect d pinb s = Some s'"
  shows "i2c_state s' = I2C_STATE_ADDR_MATCH" and "i2c_offset s' = i2c_offset s"
    and "i2c_reg s' = i2c_reg s" and "i2c_update s' = i2c_update s"
    and "post_ack s' = post_ack s"
  using assms
  by (auto simp: USI_START_vect_def write_USISR_def Let_def split: option.splits)

lemma start_total:
  assumes "wait_scl_low d pinb = Some ()"
  shows "USI_START_vect d pinb s = Some (write_USISR 0xF0 (s\<lparr>i2c_state := 0\<rparr>))"
  using assms by (simp add: USI_START_vect_def)

lemma init_fields:
  "i2c_offset (i2c_init d s) = i2c_offset s" "i2c_reg (i2c_init d s) = i2c_reg s"
  by (simp_all add: i2c_init_def write_USISR_def Let_def)

lemma check_stop_fields:
  "i2c_offset (snd (i2c_check_stop s)) = i2c_offset s"
  "i2c_reg (snd (i2c_check_stop s)) = i2c_reg s"
  by (simp_all add: i2c_check_stop_def Let_def)

lemma check_stop_at_stop:
  assumes "i2c_state s = I2C_STATE_MASTER_WRITE" and "USISR s AND push_bit USIPF 1 \<noteq> 0"
  shows "fst (i2c_check_stop s) = i2c_update s"
    and "i2c_update s \<noteq> 0 \<Longrightarrow> i2c_state (snd (i2c_check_stop s)) = I2C_STATE_IDLE"
    and "i2c_update s = 0 \<Longrightarrow> i2c_state (snd (i2c_check_stop s)) = I2C_STATE_MASTER_WRITE"
    and "i2c_update (snd (i2c_check_stop s)) = 0"
  using assms by (simp_all add: i2c_check_stop_def Let_def)

lemma stop_flag_raised: "((w :: u8) OR push_bit USIPF 1) AND push_bit USIPF 1 \<noteq> 0"
proof
  assume "(w OR push_bit USIPF 1) AND push_bit USIPF 1 = 0"
  then have "\<not> bit ((w OR push_bit USIPF 1) AND push_bit USIPF 1) 5"
    by simp
  then show False
    by (simp add: bit_simps)
qed

lemma step_reg:
  assumes "step d e s = Inr s'"
  shows "i2c_reg s' = i2c_reg s \<or>
     (\<exists>v m. e = Overflow v \<and> post_ack s = 0 \<and> i2c_state s = I2C_STATE_MASTER_WRITE \<and>
        load_mask d (i2c_offset s) = Inr m \<and> unat (i2c_offset s) < length (i2c_reg s) \<and>
        i2c_reg s' = (i2c_reg s)[unat (i2c_offset s) :=
           (i2c_reg s ! unat (i2c_offset s) AND NOT m) OR (v AND m)])"
proof (cases e)
  case (Start_cond pinb)
  with assms show ?thesis
    by (auto split: option.splits dest: start_fields(3))
next
  case (Overflow v)
  with assms show ?thesis
    using overflow_reg [of d "s\<lparr>USIDR := v, USISR := (USISR s OR push_bit USIOIF 1) AND 0xF0\<rparr>" s']
    by auto
qed (use assms in \<open>auto simp: init_fields check_stop_fields\<close>)

lemma step_offset:
  assumes "step d e s = Inr s'" and "offset_in_range d s"
  shows "offset_in_range d s'"
proof (cases e)
  case (Start_cond pinb)
  with assms show ?thesis
    by (auto simp: offset_in_range_def split: option.splits dest: start_fields(2))
next
  case (Overflow v)
  have "1 \<le> I2C_N_REG d"
    using assms(2) uint_ge_0 [of "i2c_offset s"] unfolding offset_in_range_def by linarith
  with Overflow assms(1) show ?thesis
    by (auto intro: overflow_offset)
qed (use assms in \<open>auto simp: offset_in_range_def init_fields check_stop_fields\<close>)

lemma run_offset:
  assumes "run d es s = Inr s'" and "offset_in_range d s"
  shows "offset_in_range d s'"
  using assms
proof (induction es arbitrary: s)
  case Nil
  then show ?case by simp
next
  case (Cons e es)
  then obtain s1 where "step d e s = Inr s1" and "run d es s1 = Inr s'"
    by (auto split: sum.splits)
  with Cons show ?case using step_offset by blast
qed

lemma run_append:
  "run d (xs @ ys) s = (case run d xs s of Inl f \<Rightarrow> Inl f | Inr s' \<Rightarrow> run d ys s')"
  by (induction xs arbitrary: s) (auto split: sum.splits)

section \<open>Bytes of a write transaction\<close>

lemma well_formed_length:
  assumes "length (i2c_reg s') = length (i2c_reg s)"
  shows "well_formed d s' = well_formed d s"
  using assms by (auto simp: well_formed_def split: write_mask.splits)

lemma offset_in_range_nat:
  assumes "offset_in_range d s"
  shows "unat (i2c_offset s) < nat (I2C_N_REG d)"
proof -
  have "int (unat (i2c_offset s)) < I2C_N_REG d"
    using assms by (simp add: offset_in_range_def)
  then show ?thesis by linarith
qed

lemma data_byte:
  assumes w: "well_formed d s" and r: "offset_in_range d s"
    and p: "post_ack s = 0" and st: "i2c_state s = I2C_STATE_MASTER_WRITE"
  shows "\<exists>s' m. load_mask d (i2c_offset s) = Inr m \<and> run d (byte b a) s = Inr s' \<and>
      i2c_reg s' = (i2c_reg s)[unat (i2c_offset s) :=
         (i2c_reg s ! unat (i2c_offset s) AND NOT m) OR (b AND m)] \<and>
      i2c_update s' = i2c_update s + 1 \<and>
      unat (i2c_offset s') = (unat (i2c_offset s) + 1) mod nat (I2C_N_REG d) \<and>
      i2c_state s' = I2C_STATE_MASTER_WRITE \<and> post_ack s' = 0 \<and>
      well_formed d s' \<and> offset_in_range d s'"
proof -
  obtain m where m: "load_mask d (i2c_offset s) = Inr m"
    using load_mask_total [OF w r] ..
  note i = well_formed_index [OF w r]
  have n: "1 \<le> I2C_N_REG d" "I2C_N_REG d \<le> 256"
    using w by (simp_all add: well_formed_def)
  define s0 where "s0 = s\<lparr>USIDR := b, USISR := (USISR s OR push_bit USIOIF 1) AND 0xF0\<rparr>"
  define s1 where "s1 = finish_overflow d (0xD0 OR push_bit USICNT0 14) I2C_SDA_DIR_OUT
      (s0\<lparr>i2c_reg := (i2c_reg s0)[unat (i2c_offset s0) :=
               (i2c_reg s0 ! unat (i2c_offset s0) AND NOT m) OR (USIDR s0 AND m)],
          i2c_update := i2c_update s0 + 1, i2c_offset := i2c_offset s0 + 1,
          USIDR := 0, post_ack := 1\<rparr>)"
  define s2 where "s2 = s1\<lparr>USIDR := a, USISR := (USISR s1 OR push_bit USIOIF 1) AND 0xF0\<rparr>"
  define s3 where "s3 = finish_overflow d 0xD0 I2C_SDA_DIR_IN (s2\<lparr>post_ack := 0\<rparr>)"
  have e1: "step d (Overflow b) s = Inr s1"
    using overflow_master_write [of s0 d m] p st m i
    by (simp add: s0_def s1_def)
  have f1: "i2c_state s1 = I2C_STATE_MASTER_WRITE" "post_ack s1 = 1"
    "i2c_update s1 = i2c_update s + 1"
    "i2c_reg s1 = (i2c_reg s)[unat (i2c_offset s) :=
         (i2c_reg s ! unat (i2c_offset s) AND NOT m) OR (b AND m)]"
    "i2c_offset s1 = (if uint (i2c_offset s + 1) > I2C_N_REG d - 1 then 0 else i2c_offset s + 1)"
    using st by (simp_all add: s1_def s0_def finish_overflow_keeps)
  have o1: "unat (i2c_offset s1) = (unat (i2c_offset s) + 1) mod nat (I2C_N_REG d)"
    unfolding f1(5) using offset_wrap [OF n(2)] r by (simp add: offset_in_range_def)
  have r1: "offset_in_range d s1"
    using e1 n(1) by (auto intro: overflow_offset)
  have e2: "step d (Overflow a) s1 = Inr s3"
    using overflow_post_ack_quiet [of s2 d] f1(1,2)
    by (simp add: s2_def s3_def)
  have f3: "i2c_state s3 = I2C_STATE_MASTER_WRITE" "post_ack s3 = 0"
    "i2c_update s3 = i2c_update s + 1" "i2c_reg s3 = i2c_reg s1"
    "i2c_offset s3 = i2c_offset s1"
    using r1 f1(1-3)
    by (simp_all add: s3_def s2_def finish_overflow_keeps offset_in_range_def)
  have "run d (byte b a) s = Inr s3"
    unfolding byte_def by (simp only: run.simps e1 e2 sum.case)
  moreover have "well_formed d s3"
    using w well_formed_length [of s3 s d] by (simp add: f3(4) f1(4))
  moreover have "offset_in_range d s3"
    using r1 by (simp add: offset_in_range_def f3(5))
  ultimately show ?thesis
    using m o1 f3 f1(4) by simp
qed

lemma data_bytes:
  assumes "well_formed d s" and "offset_in_range d s"
    and "post_ack s = 0" and "i2c_state s = I2C_STATE_MASTER_WRITE"
  shows "\<exists>s'. run d (data bs) s = Inr s' \<and>
      i2c_update s' = i2c_update s + of_nat (length bs) \<and>
      unat (i2c_offset s') = (unat (i2c_offset s) + length bs) mod nat (I2C_N_REG d) \<and>
      i2c_state s' = I2C_STATE_MASTER_WRITE \<and> post_ack s' = 0 \<and>
      well_formed d s' \<and> offset_in_range d s'"
  using assms
proof (induction bs arbitrary: s)
  case Nil
  from offset_in_range_nat [OF Nil.prems(2)] show ?case using Nil by simp
next
  case (Cons x bs)
  obtain b a where x: "x = (b, a)" by (cases x)
  from data_byte [OF Cons.prems, of b a] obtain s1 where
    s1: "run d (byte b a) s = Inr s1" "i2c_update s1 = i2c_update s + 1"
      "unat (i2c_offset s1) = (unat (i2c_offset s) + 1) mod nat (I2C_N_REG d)"
      "i2c_state s1 = I2C_STATE_MASTER_WRITE" "post_ack s1 = 0"
      "well_formed d s1" "offset_in_range d s1"
    by blast
  from Cons.IH [OF s1(6,7,5,4)] obtain s' where
    s': "run d (data bs) s1 = Inr s'"
      "i2c_update s' = i2c_update s1 + of_nat (length bs)"
      "unat (i2c_offset s') = (unat (i2c_offset s1) + length bs) mod nat (I2C_N_REG d)"
      "i2c_state s' = I2C_STATE_MASTER_WRITE" "post_ack s' = 0"
      "well_formed d s'" "offset_in_range d s'"
    by blast
  have "run d (data (x # bs)) s = Inr s'"
    by (simp add: x run_append s1(1) s'(1))
  moreover have "i2c_update s' = i2c_update s + of_nat (length (x # bs))"
    by (simp add: s'(2) s1(2))
  moreover have "unat (i2c_offset s') =
      (unat (i2c_offset s) + length (x # bs)) mod nat (I2C_N_REG d)"
    unfolding s'(3) s1(3) by (simp add: mod_add_left_eq)
  ultimately show ?case using s'(4-7) by blast
qed

lemma write_header:
  assumes w: "well_formed d s" and p: "post_ack s = 0"
    and scl: "wait_scl_low d pinb = Some ()"
    and ab: "write_address d ab" and ob: "uint ob < I2C_N_REG d"
  shows "\<exists>s'. run d (Start_cond pinb # byte ab a1 @ byte ob a2) s = Inr s' \<and>
      i2c_state s' = I2C_STATE_MASTER_WRITE \<and> post_ack s' = 0 \<and> i2c_update s' = 1 \<and>
      i2c_offset s' = ob \<and> i2c_reg s' = i2c_reg s \<and>
      well_formed d s' \<and> offset_in_range d s'"
proof -
  have n: "1 \<le> I2C_N_REG d"
    using w by (simp add: well_formed_def)
  have "\<exists>s'. run d (Start_cond pinb # byte ab a1 @ byte ob a2) s = Inr s' \<and>
      i2c_state s' = I2C_STATE_MASTER_WRITE \<and> post_ack s' = 0 \<and> i2c_update s' = 1 \<and>
      i2c_offset s' = ob \<and> i2c_reg s' = i2c_reg s"
    using p scl ab ob n
    by (auto simp: byte_def start_total USI_OVERFLOW_vect_def pre_ack_work_def
        post_ack_work_def finish_overflow_def write_USISR_def NAK_def ACK_def Let_def
        write_address_def)
  then obtain s' where s': "run d (Start_cond pinb # byte ab a1 @ byte ob a2) s = Inr s'"
    "i2c_state s' = I2C_STATE_MASTER_WRITE" "post_ack s' = 0" "i2c_update s' = 1"
    "i2c_offset s' = ob" "i2c_reg s' = i2c_reg s"
    by blast
  have "well_formed d s'"
    using w well_formed_length [of s' s d] s'(6) by simp
  moreover have "offset_in_range d s'"
    using ob by (simp add: offset_in_range_def s'(5))
  ultimately show ?thesis using s' by blast
qed

section \<open>Evaluation of the examples\<close>

lemmas concrete =
  scenario_defs_def locked_defs_def led_defs_def scenario_start_def mid_write_def led_last_def
  power_on_def
  i2c_init_def write_USISR_def well_formed_def offset_in_range_def write_address_def

lemmas handlers =
  byte_def USI_START_vect_def USI_OVERFLOW_vect_def pre_ack_work_def post_ack_work_def
  finish_overflow_def load_mask_def heed_writeable_bits_def NAK_def ACK_def Let_def


text \<open>The two states of the examples are reached from initialisation.\<close>

lemma mid_write_reached:
  "run scenario_defs (Start_cond [0x00] # byte 0x80 0x00 @ byte 0x01 0x00) scenario_start =
     Inr mid_write"
  by (simp add: concrete handlers)

lemma led_last_reached:
  "run led_defs (Start_cond [0x80, 0x00] # byte 0x80 0x00 @ byte 51 0xAB)
     (i2c_init led_defs (power_on (replicate 52 0x00))) = Inr led_last"
  by (simp add: concrete handlers)

section \<open>Address match\<close>

text \<open>
  C4. In state ADDR_MATCH, before the ACK cycle: when the received byte shifted right by
  one is non-zero and differs from the slave address, the handler loads NAK (0x80) and
  the state becomes IDLE; otherwise (the address is ours or zero) it loads ACK (0x00)
  and the state becomes REG_ADDR when bit 0 of the byte is 0, with the offset cleared
  and the update counter set to 1, or MASTER_READ when bit 0 is 1. In all cases SDA is
  driven (its direction bit is set) and the handler returns.
\<close>

theorem addr_match_pre_ack:
  assumes "post_ack s = 0" and "i2c_state s = I2C_STATE_ADDR_MATCH"
  shows "\<exists>s'. USI_OVERFLOW_vect d s = Inr s' \<and>
           USI_DDR s' = USI_DDR s OR push_bit (I2C_SDA d) 1 \<and>
           (if drop_bit 1 (USIDR s) \<noteq> 0 \<and> uint (drop_bit 1 (USIDR s)) \<noteq> I2C_SLAVE_ADDR d
            then USIDR s' = 0x80 \<and> i2c_state s' = I2C_STATE_IDLE
            else USIDR s' = 0x00 \<and>
                 (if USIDR s AND 1 = 0
                  then i2c_state s' = I2C_STATE_REG_ADDR \<and> i2c_offset s' = 0 \<and>
                       i2c_update s' = 1
                  else i2c_state s' = I2C_STATE_MASTER_READ))"
  using assms
  by (simp add: USI_OVERFLOW_vect_def pre_ack_work_def finish_overflow_keeps NAK_def ACK_def
      Let_def)

text \<open>
  The hypotheses hold after initialisation; the four bytes are our address for writing
  and for reading, the general-call address for reading, and a foreign address.
\<close>

theorem addr_match_pre_ack_witness:
  "post_ack (scenario_start\<lparr>USIDR := 0x80\<rparr>) = 0 \<and>
   i2c_state (scenario_start\<lparr>USIDR := 0x80\<rparr>) = I2C_STATE_ADDR_MATCH \<and>
   (\<exists>s'. USI_OVERFLOW_vect scenario_defs (scenario_start\<lparr>USIDR := 0x80\<rparr>) = Inr s' \<and>
      USIDR s' = 0x00 \<and> i2c_state s' = I2C_STATE_REG_ADDR \<and> i2c_offset s' = 0 \<and>
      i2c_update s' = 1) \<and>
   (\<exists>s'. USI_OVERFLOW_vect scenario_defs (scenario_start\<lparr>USIDR := 0x81\<rparr>) = Inr s' \<and>
      USIDR s' = 0x00 \<and> i2c_state s' = I2C_STATE_MASTER_READ) \<and>
   (\<exists>s'. USI_OVERFLOW_vect scenario_defs (scenario_start\<lparr>USIDR := 0x01\<rparr>) = Inr s' \<and>
      USIDR s' = 0x00 \<and> i2c_state s' = I2C_STATE_MASTER_READ) \<and>
   (\<exists>s'. USI_OVERFLOW_vect scenario_defs (scenario_start\<lparr>USIDR := 0x22\<rparr>) = Inr s' \<and>
      USIDR s' = 0x80 \<and> i2c_state s' = I2C_STATE_IDLE)"
proof -
  have h: "post_ack (scenario_start\<lparr>USIDR := v\<rparr>) = 0 \<and>
    i2c_state (scenario_start\<lparr>USIDR := v\<rparr>) = I2C_STATE_ADDR_MATCH \<and>
    USIDR (scenario_start\<lparr>USIDR := v\<rparr>) = v" for v
    by (simp add: concrete Let_def)
  have a: "I2C_SLAVE_ADDR scenario_defs = 0x40"
    by (simp add: scenario_defs_def)
  have "\<exists>s'. USI_OVERFLOW_vect scenario_defs (scenario_start\<lparr>USIDR := 0x80\<rparr>) = Inr s' \<and>
      USIDR s' = 0x00 \<and> i2c_state s' = I2C_STATE_REG_ADDR \<and> i2c_offset s' = 0 \<and>
      i2c_update s' = 1"
    using addr_match_pre_ack [of "scenario_start\<lparr>USIDR := 0x80\<rparr>" scenario_defs]
    by (auto simp: h a)
  moreover
  have "\<exists>s'. USI_OVERFLOW_vect scenario_defs (scenario_start\<lparr>USIDR := 0x81\<rparr>) = Inr s' \<and>
      USIDR s' = 0x00 \<and> i2c_state s' = I2C_STATE_MASTER_READ"
    using addr_match_pre_ack [of "scenario_start\<lparr>USIDR := 0x81\<rparr>" scenario_defs]
    by (auto simp: h a)
  moreover
  have "\<exists>s'. USI_OVERFLOW_vect scenario_defs (scenario_start\<lparr>USIDR := 0x01\<rparr>) = Inr s' \<and>
      USIDR s' = 0x00 \<and> i2c_state s' = I2C_STATE_MASTER_READ"
    using addr_match_pre_ack [of "scenario_start\<lparr>USIDR := 0x01\<rparr>" scenario_defs]
    by (auto simp: h a)
  moreover
  have "\<exists>s'. USI_OVERFLOW_vect scenario_defs (scenario_start\<lparr>USIDR := 0x22\<rparr>) = Inr s' \<and>
      USIDR s' = 0x80 \<and> i2c_state s' = I2C_STATE_IDLE"
    using addr_match_pre_ack [of "scenario_start\<lparr>USIDR := 0x22\<rparr>" scenario_defs]
    by (auto simp: h a)
  ultimately show ?thesis
    using h [of "0x80"] by blast
qed

section \<open>The stop poller\<close>

lemma raise_stops_fields:
  "i2c_state (raise_stops es s) = i2c_state s" "i2c_update (raise_stops es s) = i2c_update s"
  "i2c_reg (raise_stops es s) = i2c_reg s" "i2c_offset (raise_stops es s) = i2c_offset s"
  "SREG_I (raise_stops es s) = SREG_I s"
  "USISR (raise_stops es s) =
     (if Bus_stop \<in> set es then USISR s OR push_bit USIPF 1 else USISR s)"
  by (simp_all add: raise_stops_def)

text \<open>With interrupts disabled every request is held and only the stop flag moves.\<close>

lemma arrive_masked:
  assumes "\<not> SREG_I s"
  shows "arrive d es (p, s) = Inr (p @ filter (\<lambda>e. e \<noteq> Bus_stop) es, raise_stops es s)"
  using assms
proof (induction es arbitrary: p s)
  case Nil
  then show ?case by (simp add: raise_stops_def)
next
  case (Cons e es)
  show ?case
  proof (cases "e = Bus_stop")
    case True
    have "\<not> SREG_I (s\<lparr>USISR := USISR s OR push_bit USIPF 1\<rparr>)"
      using Cons.prems by simp
    from Cons.IH [OF this] True show ?thesis
      by (simp add: raise_stops_def or.assoc)
  next
    case False
    with Cons.IH [OF Cons.prems] Cons.prems show ?thesis
      by (simp add: raise_stops_def)
  qed
qed

lemma arrive_stops:
  assumes "\<forall>e \<in> set es. e = Bus_stop"
  shows "arrive d es (p, s) = Inr (p, raise_stops es s)"
  using assms
proof (induction es arbitrary: s)
  case Nil
  then show ?case by (simp add: raise_stops_def)
next
  case (Cons e es)
  then have e: "e = Bus_stop" and r: "\<forall>e \<in> set es. e = Bus_stop"
    by simp_all
  from Cons.IH [OF r] e show ?case
    by (simp add: raise_stops_def or.assoc)
qed

text \<open>Without any event during the call the statements amount to the function.\<close>

lemma check_stop_no_requests:
  "i2c_check_stop_irq d no_requests s = Inr (fst (i2c_check_stop s), [], snd (i2c_check_stop s))"
  by (simp add: i2c_check_stop_irq_def no_requests_def i2c_check_stop_def Let_def)

text \<open>
  C5 (as the source has it). \<^verbatim>\<open>i2c_check_stop()\<close> tests the state and the update
  counter with interrupts enabled; the read of the stop flag, the change of the state,
  the snapshot and the clearing of the counter are between \<^verbatim>\<open>cli()\<close> and \<^verbatim>\<open>sei()\<close>.
  When no interrupt is served between the test and \<^verbatim>\<open>cli()\<close> (STOPs may arrive at any
  point, and interrupt requests at any point after \<^verbatim>\<open>cli()\<close>), the call returns, and it
  returns a non-zero value if and only if the state is MASTER_WRITE, the update counter
  is non-zero and the stop flag is set when it is read. In that case the value is the
  update counter, the state is IDLE and the counter 0 when \<^verbatim>\<open>sei()\<close> has run, and every
  request that arrived since \<^verbatim>\<open>cli()\<close> is still held: no handler ran in between. In every
  other case it returns 0 and leaves the state and the counter as they were. The
  register array and the offset are never touched. With no event at all during the call
  this is the function \<open>i2c_check_stop\<close>.
\<close>

theorem i2c_check_stop_critical_section:
  assumes "\<forall>e \<in> set (at_test_update sch @ at_cli sch). e = Bus_stop"
  shows "\<exists>ret p s'. i2c_check_stop_irq d sch s = Inr (ret, p, s') \<and>
      (ret \<noteq> 0 \<longleftrightarrow>
         i2c_state s = I2C_STATE_MASTER_WRITE \<and> i2c_update s \<noteq> 0 \<and> stop_flag_read sch s) \<and>
      (if i2c_state s = I2C_STATE_MASTER_WRITE \<and> i2c_update s \<noteq> 0 \<and> stop_flag_read sch s
       then ret = i2c_update s \<and> i2c_state s' = I2C_STATE_IDLE \<and> i2c_update s' = 0 \<and>
            p = held sch \<and> SREG_I s'
       else ret = 0 \<and> i2c_state s' = i2c_state s \<and> i2c_update s' = i2c_update s) \<and>
      i2c_reg s' = i2c_reg s \<and> i2c_offset s' = i2c_offset s \<and>
      i2c_check_stop_irq d no_requests s =
        Inr (fst (i2c_check_stop s), [], snd (i2c_check_stop s))"
proof -
  have a: "\<forall>e \<in> set (at_test_update sch). e = Bus_stop" "\<forall>e \<in> set (at_cli sch). e = Bus_stop"
    using assms by simp_all
  have "\<exists>ret p s'. i2c_check_stop_irq d sch s = Inr (ret, p, s') \<and>
      (ret \<noteq> 0 \<longleftrightarrow>
         i2c_state s = I2C_STATE_MASTER_WRITE \<and> i2c_update s \<noteq> 0 \<and> stop_flag_read sch s) \<and>
      (if i2c_state s = I2C_STATE_MASTER_WRITE \<and> i2c_update s \<noteq> 0 \<and> stop_flag_read sch s
       then ret = i2c_update s \<and> i2c_state s' = I2C_STATE_IDLE \<and> i2c_update s' = 0 \<and>
            p = held sch \<and> SREG_I s'
       else ret = 0 \<and> i2c_state s' = i2c_state s \<and> i2c_update s' = i2c_update s) \<and>
      i2c_reg s' = i2c_reg s \<and> i2c_offset s' = i2c_offset s"
    using a
    by (auto simp: i2c_check_stop_irq_def Let_def arrive_stops arrive_masked raise_stops_fields
        stop_flag_read_def held_def stop_flag_raised)
  with check_stop_no_requests [of d s] show ?thesis
    by blast
qed

text \<open>
  In the middle of a write of the scenario a STOP arrives just before \<^verbatim>\<open>cli()\<close>, a new
  START before the snapshot and a counter overflow before \<^verbatim>\<open>sei()\<close>: the poller returns
  1, leaves IDLE and 0, and both requests are still held.
\<close>

theorem i2c_check_stop_critical_section_witness:
  "at_test_update
     (no_requests\<lparr>at_cli := [Bus_stop], at_snapshot := [Bus_start [0x00]],
                    at_sei := [Bus_overflow 0x80]\<rparr>) @
   at_cli
     (no_requests\<lparr>at_cli := [Bus_stop], at_snapshot := [Bus_start [0x00]],
                    at_sei := [Bus_overflow 0x80]\<rparr>) = [Bus_stop] \<and>
   (\<exists>s'. i2c_check_stop_irq scenario_defs
           (no_requests\<lparr>at_cli := [Bus_stop], at_snapshot := [Bus_start [0x00]],
                          at_sei := [Bus_overflow 0x80]\<rparr>) mid_write =
           Inr (1, [Bus_start [0x00], Bus_overflow 0x80], s') \<and>
      i2c_state s' = I2C_STATE_IDLE \<and> i2c_update s' = 0 \<and> i2c_reg s' = [0x00, 0x00])"
proof -
  let ?sch = "no_requests\<lparr>at_cli := [Bus_stop], at_snapshot := [Bus_start [0x00]],
                          at_sei := [Bus_overflow 0x80]\<rparr>"
  have l: "at_test_update ?sch @ at_cli ?sch = [Bus_stop]"
    by (simp add: no_requests_def)
  then have h: "\<forall>e \<in> set (at_test_update ?sch @ at_cli ?sch). e = Bus_stop"
    by simp
  have e: "i2c_state mid_write = I2C_STATE_MASTER_WRITE" "i2c_update mid_write = 1"
    "i2c_reg mid_write = [0x00, 0x00]" "stop_flag_read ?sch mid_write"
    "held ?sch = [Bus_start [0x00], Bus_overflow 0x80]"
    by (simp_all add: mid_write_def stop_flag_read_def held_def no_requests_def)
  from i2c_check_stop_critical_section [OF h, of scenario_defs mid_write]
  have "\<exists>s'. i2c_check_stop_irq scenario_defs ?sch mid_write =
           Inr (1, [Bus_start [0x00], Bus_overflow 0x80], s') \<and>
      i2c_state s' = I2C_STATE_IDLE \<and> i2c_update s' = 0 \<and> i2c_reg s' = [0x00, 0x00]"
    by (auto simp: e)
  with l show ?thesis
    by blast
qed

text \<open>
  C5, counterexample. With the state MASTER_WRITE, the counter 1 and the stop flag set
  on entry, a START served between the test and \<^verbatim>\<open>cli()\<close> makes the poller return 0,
  with the state at ADDR_MATCH and the counter still 1. With the counter at 255, a data
  byte and a STOP between the test and \<^verbatim>\<open>cli()\<close> make it return 0 although it sets the
  state to IDLE and clears the counter.
\<close>

theorem i2c_check_stop_raced:
  "i2c_state (mid_write\<lparr>USISR := 0x20\<rparr>) = I2C_STATE_MASTER_WRITE \<and>
   i2c_update (mid_write\<lparr>USISR := 0x20\<rparr>) \<noteq> 0 \<and>
   USISR (mid_write\<lparr>USISR := 0x20\<rparr>) AND push_bit USIPF 1 \<noteq> 0 \<and>
   (case i2c_check_stop_irq scenario_defs (no_requests\<lparr>at_cli := [Bus_start [0x00]]\<rparr>)
           (mid_write\<lparr>USISR := 0x20\<rparr>) of
      Inl f \<Rightarrow> False
    | Inr (ret, p, s') \<Rightarrow>
        ret = 0 \<and> i2c_state s' = I2C_STATE_ADDR_MATCH \<and> i2c_update s' = 1) \<and>
   (case i2c_check_stop_irq scenario_defs
           (no_requests\<lparr>at_cli := [Bus_overflow 0x11, Bus_overflow 0x00, Bus_stop]\<rparr>)
           (mid_write\<lparr>i2c_update := 255\<rparr>) of
      Inl f \<Rightarrow> False
    | Inr (ret, p, s') \<Rightarrow>
        ret = 0 \<and> i2c_state s' = I2C_STATE_IDLE \<and> i2c_update s' = 0)"
  by (simp add: i2c_check_stop_irq_def no_requests_def concrete handlers)

section \<open>Master write\<close>

text \<open>
  C8. In state MASTER_WRITE, before the ACK cycle, with the array as declared and the
  offset in range: for every received byte (the content of the shift register) the
  handler returns, the register at the offset becomes \<open>(old AND NOT mask) OR (received
  AND mask)\<close> for the write mask of that register, ACK (0x00) is loaded with SDA driven,
  the update counter is incremented (modulo 256), the offset is incremented and wraps
  to 0 at \<^verbatim>\<open>I2C_N_REG\<close>, and the state stays MASTER_WRITE.
\<close>

theorem master_write_pre_ack:
  assumes "post_ack s = 0" and "i2c_state s = I2C_STATE_MASTER_WRITE"
    and "well_formed d s" and "offset_in_range d s"
  shows "\<exists>s' mask. load_mask d (i2c_offset s) = Inr mask \<and>
           USI_OVERFLOW_vect d s = Inr s' \<and>
           i2c_reg s' = (i2c_reg s)[unat (i2c_offset s) :=
              (i2c_reg s ! unat (i2c_offset s) AND NOT mask) OR (USIDR s AND mask)] \<and>
           USIDR s' = 0x00 \<and> USI_DDR s' = USI_DDR s OR push_bit (I2C_SDA d) 1 \<and>
           i2c_update s' = i2c_update s + 1 \<and>
           unat (i2c_offset s') = (unat (i2c_offset s) + 1) mod nat (I2C_N_REG d) \<and>
           i2c_state s' = I2C_STATE_MASTER_WRITE"
proof -
  obtain m where m: "load_mask d (i2c_offset s) = Inr m"
    using load_mask_total [OF assms(3,4)] ..
  note i = well_formed_index [OF assms(3,4)]
  have n: "I2C_N_REG d \<le> 256"
    using assms(3) by (simp add: well_formed_def)
  have r: "uint (i2c_offset s) < I2C_N_REG d"
    using assms(4) by (simp add: offset_in_range_def)
  note w = offset_wrap [OF n r]
  show ?thesis
    using assms(2) w m
    by (auto simp: overflow_master_write [OF assms(1,2) m i] finish_overflow_keeps
        split: if_splits)
qed

text \<open>
  The byte 0xF5 written to register 1 (mask 0x0F) of the scenario leaves 0x05 there and
  the offset wraps from 1 to 0. With the global mask 0xFF and 52 registers, 0xAB written
  to register 51 is stored whole and the offset wraps from 51 to 0.
\<close>

theorem master_write_pre_ack_witness:
  "post_ack (mid_write\<lparr>USIDR := 0xF5\<rparr>) = 0 \<and>
   i2c_state (mid_write\<lparr>USIDR := 0xF5\<rparr>) = I2C_STATE_MASTER_WRITE \<and>
   well_formed scenario_defs (mid_write\<lparr>USIDR := 0xF5\<rparr>) \<and>
   offset_in_range scenario_defs (mid_write\<lparr>USIDR := 0xF5\<rparr>) \<and>
   (\<exists>s'. USI_OVERFLOW_vect scenario_defs (mid_write\<lparr>USIDR := 0xF5\<rparr>) = Inr s' \<and>
      i2c_reg s' = [0x00, 0x05] \<and> USIDR s' = 0x00 \<and> i2c_update s' = 2 \<and>
      unat (i2c_offset s') = 0 \<and> i2c_state s' = I2C_STATE_MASTER_WRITE) \<and>
   post_ack led_last = 0 \<and> i2c_state led_last = I2C_STATE_MASTER_WRITE \<and>
   well_formed led_defs led_last \<and> offset_in_range led_defs led_last \<and>
   (\<exists>s'. USI_OVERFLOW_vect led_defs led_last = Inr s' \<and>
      i2c_reg s' ! 51 = 0xAB \<and> USIDR s' = 0x00 \<and> i2c_update s' = 2 \<and>
      unat (i2c_offset s') = 0 \<and> i2c_state s' = I2C_STATE_MASTER_WRITE)"
proof -
  let ?s = "mid_write\<lparr>USIDR := 0xF5\<rparr>"
  have h: "post_ack ?s = 0" "i2c_state ?s = I2C_STATE_MASTER_WRITE"
    "well_formed scenario_defs ?s" "offset_in_range scenario_defs ?s"
    by (simp_all add: concrete)
  have e: "load_mask scenario_defs 1 = Inr 0x0F" "i2c_reg mid_write = [0, 0]"
    "i2c_offset mid_write = 1" "i2c_update mid_write = 1"
    "nat (I2C_N_REG scenario_defs) = 2"
    by (simp_all add: concrete load_mask_def)
  have h': "post_ack led_last = 0" "i2c_state led_last = I2C_STATE_MASTER_WRITE"
    "well_formed led_defs led_last" "offset_in_range led_defs led_last"
    by (simp_all add: concrete)
  have e': "load_mask led_defs 51 = Inr 0xFF" "i2c_reg led_last = replicate 52 0"
    "i2c_offset led_last = 51" "i2c_update led_last = 1" "USIDR led_last = 0xAB"
    "nat (I2C_N_REG led_defs) = 52"
    by (simp_all add: concrete load_mask_def)
  from master_write_pre_ack [OF h]
  have "\<exists>s'. USI_OVERFLOW_vect scenario_defs ?s = Inr s' \<and>
      i2c_reg s' = [0x00, 0x05] \<and> USIDR s' = 0x00 \<and> i2c_update s' = 2 \<and>
      unat (i2c_offset s') = 0 \<and> i2c_state s' = I2C_STATE_MASTER_WRITE"
    by (auto simp: e)
  moreover from master_write_pre_ack [OF h']
  have "\<exists>s'. USI_OVERFLOW_vect led_defs led_last = Inr s' \<and>
      i2c_reg s' ! 51 = 0xAB \<and> USIDR s' = 0x00 \<and> i2c_update s' = 2 \<and>
      unat (i2c_offset s') = 0 \<and> i2c_state s' = I2C_STATE_MASTER_WRITE"
    by (auto simp: e')
  ultimately show ?thesis
    using h h' by blast
qed

section \<open>Write transactions\<close>

lemma stop_after:
  assumes "run d es s = Inr s1"
  shows "run d (es @ [Stop_cond]) s = Inr (s1\<lparr>USISR := USISR s1 OR push_bit USIPF 1\<rparr>)"
  by (simp add: run_append assms)

lemma stopped_fields:
  "i2c_state (s\<lparr>USISR := v\<rparr>) = i2c_state s" "i2c_update (s\<lparr>USISR := v\<rparr>) = i2c_update s"
  "i2c_reg (s\<lparr>USISR := v\<rparr>) = i2c_reg s" "USISR (s\<lparr>USISR := v\<rparr>) = v"
  by simp_all

text \<open>
  C2 (as the source has it). After START, an address byte the engine takes as its own
  with the R/W bit 0, one register-offset byte below \<^verbatim>\<open>I2C_N_REG\<close> and STOP, with no
  data byte, the update counter is 1, not 0 (the address match in write mode sets it),
  the state is MASTER_WRITE and the stop flag is set. The register array is as it was.
  This holds when the overflow handler was not left between its two phases before the
  START and the start handler sees SCL low.
\<close>

theorem stop_after_offset_byte:
  assumes "well_formed d s" and "post_ack s = 0" and "wait_scl_low d pinb = Some ()"
    and "write_address d ab" and "uint ob < I2C_N_REG d"
  shows "\<exists>s'. run d (Start_cond pinb # byte ab a1 @ byte ob a2 @ [Stop_cond]) s = Inr s' \<and>
      i2c_update s' = 1 \<and> i2c_state s' = I2C_STATE_MASTER_WRITE \<and>
      USISR s' AND push_bit USIPF 1 \<noteq> 0 \<and> i2c_reg s' = i2c_reg s"
proof -
  from write_header [OF assms, of a1 a2] obtain s1 where
    s1: "run d (Start_cond pinb # byte ab a1 @ byte ob a2) s = Inr s1"
      "i2c_state s1 = I2C_STATE_MASTER_WRITE" "i2c_update s1 = 1" "i2c_reg s1 = i2c_reg s"
    by blast
  define s' where "s' = s1\<lparr>USISR := USISR s1 OR push_bit USIPF 1\<rparr>"
  have "run d ((Start_cond pinb # byte ab a1 @ byte ob a2) @ [Stop_cond]) s = Inr s'"
    unfolding s'_def by (rule stop_after [OF s1(1)])
  then have r: "run d (Start_cond pinb # byte ab a1 @ byte ob a2 @ [Stop_cond]) s = Inr s'"
    by simp
  have f: "i2c_state s' = I2C_STATE_MASTER_WRITE" "i2c_update s' = 1" "i2c_reg s' = i2c_reg s"
    "USISR s' AND push_bit USIPF 1 \<noteq> 0"
    unfolding s'_def stopped_fields using s1 stop_flag_raised by simp_all
  from f r show ?thesis
    by blast
qed

text \<open>The hypotheses hold in the scenario, after initialisation.\<close>

theorem stop_after_offset_byte_witness:
  "well_formed scenario_defs scenario_start \<and> post_ack scenario_start = 0 \<and>
   wait_scl_low scenario_defs [0x04, 0x00] = Some () \<and> write_address scenario_defs 0x80 \<and>
   uint (0x00 :: u8) < I2C_N_REG scenario_defs \<and>
   (\<exists>s'. run scenario_defs
           (Start_cond [0x04, 0x00] # byte 0x80 0x00 @ byte 0x00 0x00 @ [Stop_cond])
           scenario_start = Inr s' \<and>
      i2c_update s' = 1 \<and> i2c_state s' = I2C_STATE_MASTER_WRITE \<and>
      USISR s' AND push_bit USIPF 1 \<noteq> 0 \<and> i2c_reg s' = [0x00, 0x00])"
proof -
  have h: "well_formed scenario_defs scenario_start" "post_ack scenario_start = 0"
    "wait_scl_low scenario_defs [0x04, 0x00] = Some ()" "write_address scenario_defs 0x80"
    "uint (0x00 :: u8) < I2C_N_REG scenario_defs"
    by (simp_all add: concrete)
  have e: "i2c_reg scenario_start = [0x00, 0x00]"
    by (simp add: concrete)
  from stop_after_offset_byte [OF h, of "0x00" "0x00"] h show ?thesis
    by (simp add: e)
qed

text \<open>
  C2, counterexample. START, 0x80 (our address, write), the offset byte 0x00, STOP:
  the update counter is 1 and the stop poller returns 1, so neither is 0.
\<close>

theorem stop_after_offset_byte_counts:
  "(case run scenario_defs (Start_cond [0x00] # byte 0x80 0x00 @ byte 0x00 0x00 @ [Stop_cond])
           scenario_start of
      Inl f \<Rightarrow> False
    | Inr s' \<Rightarrow> i2c_update s' = 1 \<and> fst (i2c_check_stop s') = 1)"
  by (simp add: concrete handlers i2c_check_stop_def)

section \<open>The wrapped write\<close>

text \<open>
  C3 (as the source has it). In the scenario configuration (slave address 0x40, two
  registers, masks 0xFF and 0x0F, both registers 0), the bus sequence START 0x80 0x01
  0x11 0x22 0x33 STOP leaves the register array at [0x22, 0x03]: 0x11 goes to register
  1 masked to 0x01, 0x22 to register 0, 0x33 to register 1 masked to 0x03. The stop
  poller does not change it. This holds whatever the shift register holds after each
  ACK slot, as soon as the start handler sees SCL low.
\<close>

theorem wrapped_write:
  assumes "wait_scl_low scenario_defs pinb = Some ()"
  shows "\<exists>s'. run scenario_defs
           (Start_cond pinb # byte 0x80 a1 @ byte 0x01 a2 @ byte 0x11 a3 @ byte 0x22 a4 @
            byte 0x33 a5 @ [Stop_cond]) scenario_start = Inr s' \<and>
      i2c_reg s' = [0x22, 0x03] \<and> i2c_reg (snd (i2c_check_stop s')) = [0x22, 0x03]"
  using assms
  by (simp add: start_total check_stop_fields concrete byte_def USI_OVERFLOW_vect_def
      pre_ack_work_def post_ack_work_def finish_overflow_def load_mask_def
      heed_writeable_bits_def NAK_def ACK_def Let_def)

text \<open>SCL is still high at the first reading of the pins and low at the second.\<close>

theorem wrapped_write_witness:
  "wait_scl_low scenario_defs [0x04, 0x00] = Some () \<and>
   (\<exists>s'. run scenario_defs
           (Start_cond [0x04, 0x00] # byte 0x80 0 @ byte 0x01 0 @ byte 0x11 0 @ byte 0x22 0 @
            byte 0x33 0 @ [Stop_cond]) scenario_start = Inr s' \<and>
      i2c_reg s' = [0x22, 0x03] \<and> i2c_reg (snd (i2c_check_stop s')) = [0x22, 0x03])"
proof -
  have h: "wait_scl_low scenario_defs [0x04, 0x00] = Some ()"
    by (simp add: concrete)
  from wrapped_write [OF h] h show ?thesis
    by blast
qed

text \<open>
  C3, counterexample. After START 0x80 0x01 0x11 0x22 0x33 STOP in the scenario the
  register array is not [0x22, 0x01].
\<close>

theorem wrapped_write_not_01:
  "(case run scenario_defs
           (Start_cond [0x00] # byte 0x80 0 @ byte 0x01 0 @ byte 0x11 0 @ byte 0x22 0 @
            byte 0x33 0 @ [Stop_cond]) scenario_start of
      Inl f \<Rightarrow> False
    | Inr s' \<Rightarrow> i2c_reg s' \<noteq> [0x22, 0x01])"
  by (simp add: concrete handlers)

section \<open>The register offset stays in range\<close>

text \<open>
  C6. If the register offset is below \<^verbatim>\<open>I2C_N_REG\<close> on entry, it is below
  \<^verbatim>\<open>I2C_N_REG\<close> after the overflow handler, in every protocol state, in both phases
  and for every content of the shift register, and after the start handler; the
  overflow handler does return when the arrays are as declared, and the start handler
  returns when one of the readings of the pins has SCL low. Hence the offset is in
  range after every sequence of bus events and application calls.
\<close>

theorem offset_stays_in_range:
  assumes "offset_in_range d s"
  shows "(\<forall>s'. USI_OVERFLOW_vect d s = Inr s' \<longrightarrow> offset_in_range d s') \<and>
         (well_formed d s \<longrightarrow> (\<exists>s'. USI_OVERFLOW_vect d s = Inr s')) \<and>
         (\<forall>pinb s'. USI_START_vect d pinb s = Some s' \<longrightarrow> offset_in_range d s') \<and>
         (\<forall>pinb. (\<exists>p \<in> set pinb. p AND push_bit (I2C_SCL d) 1 = 0) \<longrightarrow>
                 (\<exists>s'. USI_START_vect d pinb s = Some s')) \<and>
         (\<forall>es s'. run d es s = Inr s' \<longrightarrow> offset_in_range d s')"
proof -
  have n: "1 \<le> I2C_N_REG d"
    using assms uint_ge_0 [of "i2c_offset s"] unfolding offset_in_range_def by linarith
  have "\<forall>s'. USI_OVERFLOW_vect d s = Inr s' \<longrightarrow> offset_in_range d s'"
    using overflow_offset n by blast
  moreover have "well_formed d s \<longrightarrow> (\<exists>s'. USI_OVERFLOW_vect d s = Inr s')"
    using overflow_total assms by blast
  moreover have "\<forall>pinb s'. USI_START_vect d pinb s = Some s' \<longrightarrow> offset_in_range d s'"
    using assms by (auto simp: offset_in_range_def dest: start_fields(2))
  moreover have "\<forall>pinb. (\<exists>p \<in> set pinb. p AND push_bit (I2C_SCL d) 1 = 0) \<longrightarrow>
                 (\<exists>s'. USI_START_vect d pinb s = Some s')"
    using start_total wait_scl_low_iff by blast
  moreover have "\<forall>es s'. run d es s = Inr s' \<longrightarrow> offset_in_range d s'"
    using run_offset assms by blast
  ultimately show ?thesis by blast
qed

text \<open>The hypotheses hold in the middle of a write of the scenario.\<close>

theorem offset_stays_in_range_witness:
  "offset_in_range scenario_defs (mid_write\<lparr>USIDR := 0x11\<rparr>) \<and>
   well_formed scenario_defs (mid_write\<lparr>USIDR := 0x11\<rparr>) \<and>
   (\<exists>s'. USI_OVERFLOW_vect scenario_defs (mid_write\<lparr>USIDR := 0x11\<rparr>) = Inr s' \<and>
         offset_in_range scenario_defs s') \<and>
   (\<exists>p \<in> set [0x04, 0x00 :: u8]. p AND push_bit (I2C_SCL scenario_defs) 1 = 0) \<and>
   (\<exists>s'. USI_START_vect scenario_defs [0x04, 0x00] (mid_write\<lparr>USIDR := 0x11\<rparr>) = Some s' \<and>
         offset_in_range scenario_defs s') \<and>
   (\<exists>s'. run scenario_defs (byte 0x11 0 @ byte 0x22 0) (mid_write\<lparr>USIDR := 0x11\<rparr>) = Inr s' \<and>
         offset_in_range scenario_defs s')"
proof -
  let ?s = "mid_write\<lparr>USIDR := 0x11\<rparr>"
  have h: "offset_in_range scenario_defs ?s" and w: "well_formed scenario_defs ?s"
    and p: "\<exists>p \<in> set [0x04, 0x00 :: u8]. p AND push_bit (I2C_SCL scenario_defs) 1 = 0"
    by (simp_all add: concrete)
  have r: "\<exists>s'. run scenario_defs (byte 0x11 0 @ byte 0x22 0) ?s = Inr s'"
    by (simp add: concrete handlers)
  note t = offset_stays_in_range [OF h]
  from t w have "\<exists>s'. USI_OVERFLOW_vect scenario_defs ?s = Inr s' \<and>
      offset_in_range scenario_defs s'"
    by blast
  moreover from t p have "\<exists>s'. USI_START_vect scenario_defs [0x04, 0x00] ?s = Some s' \<and>
      offset_in_range scenario_defs s'"
    by blast
  moreover from t r have "\<exists>s'. run scenario_defs (byte 0x11 0 @ byte 0x22 0) ?s = Inr s' \<and>
      offset_in_range scenario_defs s'"
    by blast
  ultimately show ?thesis using h w p by blast
qed

section \<open>Read-only bits\<close>

lemma read_only_mask:
  assumes "load_mask d off = Inr m" and "read_only d (unat off) p"
  shows "\<not> bit m p"
  using assms
  by (auto simp: load_mask_def read_only_def split: write_mask.splits if_splits)

lemma merge_keeps_bit:
  fixes x v m :: u8
  assumes "\<not> bit m p"
  shows "bit ((x AND NOT m) OR (v AND m)) p = bit x p"
  using assms by (auto simp: bit_simps dest: bit_imp_le_length)

lemma step_read_only:
  assumes "step d e s = Inr s'"
  shows "length (i2c_reg s') = length (i2c_reg s)"
    and "read_only d r p \<Longrightarrow> bit (i2c_reg s' ! r) p = bit (i2c_reg s ! r) p"
proof -
  from step_reg [OF assms] show "length (i2c_reg s') = length (i2c_reg s)"
    by auto
  assume ro: "read_only d r p"
  from step_reg [OF assms] show "bit (i2c_reg s' ! r) p = bit (i2c_reg s ! r) p"
  proof
    assume "i2c_reg s' = i2c_reg s"
    then show ?thesis by simp
  next
    assume "\<exists>v m. e = Overflow v \<and> post_ack s = 0 \<and> i2c_state s = I2C_STATE_MASTER_WRITE \<and>
        load_mask d (i2c_offset s) = Inr m \<and> unat (i2c_offset s) < length (i2c_reg s) \<and>
        i2c_reg s' = (i2c_reg s)[unat (i2c_offset s) :=
           (i2c_reg s ! unat (i2c_offset s) AND NOT m) OR (v AND m)]"
    then obtain v m where m: "load_mask d (i2c_offset s) = Inr m"
      and i: "unat (i2c_offset s) < length (i2c_reg s)"
      and e: "i2c_reg s' = (i2c_reg s)[unat (i2c_offset s) :=
           (i2c_reg s ! unat (i2c_offset s) AND NOT m) OR (v AND m)]"
      by blast
    show ?thesis
    proof (cases "r = unat (i2c_offset s)")
      case True
      with read_only_mask [OF m] ro have "\<not> bit m p" by simp
      from merge_keeps_bit [OF this] show ?thesis
        unfolding e using True i by simp
    next
      case False
      then show ?thesis unfolding e by simp
    qed
  qed
qed

lemma run_read_only:
  assumes "run d es s = Inr s'"
  shows "length (i2c_reg s') = length (i2c_reg s) \<and>
    (read_only d r p \<longrightarrow> bit (i2c_reg s' ! r) p = bit (i2c_reg s ! r) p)"
  using assms
proof (induction es arbitrary: s)
  case Nil
  then show ?case by simp
next
  case (Cons e es)
  then obtain s1 where s1: "step d e s = Inr s1" "run d es s1 = Inr s'"
    by (auto split: sum.splits)
  from Cons.IH [OF s1(2)] step_read_only(1) [OF s1(1)] step_read_only(2) [OF s1(1), of r p]
  show ?case by simp
qed

text \<open>
  C7. For every register index \<open>r\<close> and bit position \<open>p\<close> such that bit \<open>p\<close> of the
  write mask of register \<open>r\<close> (of the global mask, in that configuration) is 0, bit
  \<open>p\<close> of register \<open>r\<close> is the same after every sequence of bus events and
  application calls, and the array keeps its length. A single event changes the array
  only if it is an overflow in state MASTER_WRITE before the ACK cycle.
\<close>

theorem read_only_bits_kept:
  "(\<forall>es s'. run d es s = Inr s' \<longrightarrow>
      length (i2c_reg s') = length (i2c_reg s) \<and>
      (\<forall>r < length (i2c_reg s). \<forall>p. read_only d r p \<longrightarrow>
         bit (i2c_reg s' ! r) p = bit (i2c_reg s ! r) p)) \<and>
   (\<forall>e s'. step d e s = Inr s' \<longrightarrow> i2c_reg s' \<noteq> i2c_reg s \<longrightarrow>
      (\<exists>v. e = Overflow v) \<and> post_ack s = 0 \<and> i2c_state s = I2C_STATE_MASTER_WRITE)"
proof -
  have "\<forall>e s'. step d e s = Inr s' \<longrightarrow> i2c_reg s' \<noteq> i2c_reg s \<longrightarrow>
      (\<exists>v. e = Overflow v) \<and> post_ack s = 0 \<and> i2c_state s = I2C_STATE_MASTER_WRITE"
    using step_reg by blast
  then show ?thesis
    using run_read_only by blast
qed

text \<open>
  Bit 4 of register 1 is read-only in the scenario and survives the write of 0xF5, which
  does change the array, in state MASTER_WRITE.
\<close>

theorem read_only_bits_kept_witness:
  "(\<exists>s'. run scenario_defs
           (Start_cond [0x00] # byte 0x80 0 @ byte 0x01 0 @ byte 0xF5 0 @
            [Stop_cond, Call_check_stop]) scenario_start = Inr s' \<and>
      1 < length (i2c_reg scenario_start) \<and> read_only scenario_defs 1 4 \<and>
      i2c_reg s' = [0x00, 0x05] \<and>
      bit (i2c_reg s' ! 1) 4 = bit (i2c_reg scenario_start ! 1) 4) \<and>
   (\<exists>s'. step scenario_defs (Overflow 0xF5) mid_write = Inr s' \<and>
      i2c_reg s' \<noteq> i2c_reg mid_write \<and> post_ack mid_write = 0 \<and>
      i2c_state mid_write = I2C_STATE_MASTER_WRITE)"
proof -
  note t = read_only_bits_kept [of scenario_defs scenario_start]
  note u = read_only_bits_kept [of scenario_defs mid_write]
  obtain s' where s': "run scenario_defs
           (Start_cond [0x00] # byte 0x80 0 @ byte 0x01 0 @ byte 0xF5 0 @
            [Stop_cond, Call_check_stop]) scenario_start = Inr s'"
    and r: "i2c_reg s' = [0x00, 0x05]"
    by (simp add: concrete handlers i2c_check_stop_def)
  have h: "1 < length (i2c_reg scenario_start)" "read_only scenario_defs 1 4"
    by (simp_all add: concrete read_only_def)
  from t s' h have b: "bit (i2c_reg s' ! 1) 4 = bit (i2c_reg scenario_start ! 1) 4"
    by blast
  obtain s1 where s1: "step scenario_defs (Overflow 0xF5) mid_write = Inr s1"
    and r1: "i2c_reg s1 \<noteq> i2c_reg mid_write"
    by (simp add: concrete handlers)
  from u s1 r1 have "post_ack mid_write = 0 \<and> i2c_state mid_write = I2C_STATE_MASTER_WRITE"
    by blast
  with s' r h b s1 r1 show ?thesis by blast
qed

section \<open>The update counter modulo 256\<close>

lemma data_append: "data (xs @ ys) = data xs @ data ys"
  by (induction xs) auto

lemma run_then:
  assumes "run d xs s = Inr s1" and "run d ys s1 = Inr s2"
  shows "run d (xs @ ys) s = Inr s2"
  by (simp add: run_append assms)

lemma merge_masked:
  fixes x v m :: u8
  shows "((x AND NOT m) OR (v AND m)) AND m = v AND m"
  by (rule bit_eqI) (auto simp: bit_simps)

text \<open>
  C9. The update counter is a byte that counts modulo 256. In one write transaction
  (START, an address byte taken as ours with the R/W bit 0, a register-offset byte in
  range) the address match sets it to 1 and each data byte increments it, so after
  exactly 255 data bytes and STOP, with no stop poll in between, it is 0: the run
  completes, the state is still MASTER_WRITE, the stop flag is set, and
  \<^verbatim>\<open>i2c_check_stop()\<close> returns 0 and leaves the state at MASTER_WRITE. The writes were
  committed all the same: the register the last byte went to has that byte in its
  writable bits.
\<close>

theorem update_counter_wraps:
  assumes w: "well_formed d s" and p: "post_ack s = 0"
    and scl: "wait_scl_low d pinb = Some ()"
    and ab: "write_address d ab" and ob: "uint ob < I2C_N_REG d"
    and len: "length bs = 255"
  shows "\<exists>s' m. run d (Start_cond pinb # byte ab a1 @ byte ob a2 @ data bs @ [Stop_cond]) s
                  = Inr s' \<and>
      i2c_update s' = 0 \<and> i2c_state s' = I2C_STATE_MASTER_WRITE \<and>
      USISR s' AND push_bit USIPF 1 \<noteq> 0 \<and>
      fst (i2c_check_stop s') = 0 \<and>
      i2c_state (snd (i2c_check_stop s')) = I2C_STATE_MASTER_WRITE \<and>
      load_mask d (of_nat ((unat ob + 254) mod nat (I2C_N_REG d))) = Inr m \<and>
      i2c_reg s' ! ((unat ob + 254) mod nat (I2C_N_REG d)) AND m = fst (last bs) AND m"
proof -
  obtain bs' b a where bs: "bs = bs' @ [(b, a)]" and l': "length bs' = 254"
    using len by (cases bs rule: rev_cases) auto
  let ?hdr = "Start_cond pinb # byte ab a1 @ byte ob a2"
  let ?k = "(unat ob + 254) mod nat (I2C_N_REG d)"
  from write_header [OF w p scl ab ob, of a1 a2] obtain s1 where
    s1: "run d ?hdr s = Inr s1" "i2c_state s1 = I2C_STATE_MASTER_WRITE" "post_ack s1 = 0"
      "i2c_update s1 = 1" "i2c_offset s1 = ob" "well_formed d s1" "offset_in_range d s1"
    by blast
  from data_bytes [OF s1(6,7,3,2), of bs'] obtain s2 where
    s2: "run d (data bs') s1 = Inr s2" "i2c_update s2 = i2c_update s1 + of_nat (length bs')"
      "unat (i2c_offset s2) = (unat (i2c_offset s1) + length bs') mod nat (I2C_N_REG d)"
      "i2c_state s2 = I2C_STATE_MASTER_WRITE" "post_ack s2 = 0"
      "well_formed d s2" "offset_in_range d s2"
    by blast
  have k: "unat (i2c_offset s2) = ?k"
    unfolding s2(3) s1(5) l' ..
  then have o: "word_of_nat ?k = i2c_offset s2"
    using k [symmetric] by simp
  from data_byte [OF s2(6,7,5,4), of b a] obtain s3 m where
    s3: "load_mask d (i2c_offset s2) = Inr m" "run d (byte b a) s2 = Inr s3"
      "i2c_reg s3 = (i2c_reg s2)[unat (i2c_offset s2) :=
         (i2c_reg s2 ! unat (i2c_offset s2) AND NOT m) OR (b AND m)]"
      "i2c_update s3 = i2c_update s2 + 1" "i2c_state s3 = I2C_STATE_MASTER_WRITE"
    by blast
  define s' where "s' = s3\<lparr>USISR := USISR s3 OR push_bit USIPF 1\<rparr>"
  have l: "Start_cond pinb # byte ab a1 @ byte ob a2 @ data bs @ [Stop_cond] =
      ((?hdr @ data bs') @ byte b a) @ [Stop_cond]"
    by (simp add: bs data_append)
  have r2: "run d (?hdr @ data bs') s = Inr s2"
    by (rule run_then [OF s1(1) s2(1)])
  have r3: "run d ((?hdr @ data bs') @ byte b a) s = Inr s3"
    by (rule run_then [OF r2 s3(2)])
  have r: "run d (Start_cond pinb # byte ab a1 @ byte ob a2 @ data bs @ [Stop_cond]) s = Inr s'"
    unfolding l s'_def by (rule stop_after [OF r3])
  have u: "i2c_update s3 = 0"
    unfolding s3(4) s2(2) s1(4) l' by simp
  have f: "i2c_state s' = I2C_STATE_MASTER_WRITE" "USISR s' AND push_bit USIPF 1 \<noteq> 0"
    "i2c_update s' = 0" "i2c_reg s' = i2c_reg s3"
    unfolding s'_def stopped_fields using s3(5) u stop_flag_raised by simp_all
  have c: "fst (i2c_check_stop s') = 0"
    "i2c_state (snd (i2c_check_stop s')) = I2C_STATE_MASTER_WRITE"
    using check_stop_at_stop(1,3) [OF f(1,2)] f(3) by simp_all
  have i: "?k < length (i2c_reg s2)"
    using well_formed_index [OF s2(6,7)] unfolding k .
  have "i2c_reg s' ! ?k = (i2c_reg s2 ! ?k AND NOT m) OR (b AND m)"
    unfolding f(4) s3(3) k using i by simp
  then have g: "i2c_reg s' ! ?k AND m = fst (last bs) AND m"
    by (simp add: merge_masked bs)
  have "load_mask d (word_of_nat ?k) = Inr m"
    unfolding o by (rule s3(1))
  with r f c g show ?thesis by blast
qed

text \<open>
  The hypotheses hold in the scenario; with 255 bytes 0xAB from offset 1 the last one
  lands on register 1, whose writable nibble reads 0xB.
\<close>

theorem update_counter_wraps_witness:
  "well_formed scenario_defs scenario_start \<and> post_ack scenario_start = 0 \<and>
   wait_scl_low scenario_defs [0x00] = Some () \<and> write_address scenario_defs 0x80 \<and>
   uint (0x01 :: u8) < I2C_N_REG scenario_defs \<and>
   length (replicate 255 (0xAB :: u8, 0x00 :: u8)) = 255 \<and>
   (\<exists>s'. run scenario_defs
           (Start_cond [0x00] # byte 0x80 0x00 @ byte 0x01 0x00 @
            data (replicate 255 (0xAB, 0x00)) @ [Stop_cond]) scenario_start = Inr s' \<and>
      i2c_update s' = 0 \<and> i2c_state s' = I2C_STATE_MASTER_WRITE \<and>
      USISR s' AND push_bit USIPF 1 \<noteq> 0 \<and>
      fst (i2c_check_stop s') = 0 \<and>
      i2c_state (snd (i2c_check_stop s')) = I2C_STATE_MASTER_WRITE \<and>
      i2c_reg s' ! 1 AND 0x0F = 0x0B)"
proof -
  have h: "well_formed scenario_defs scenario_start" "post_ack scenario_start = 0"
    "wait_scl_low scenario_defs [0x00] = Some ()" "write_address scenario_defs 0x80"
    "uint (0x01 :: u8) < I2C_N_REG scenario_defs"
    "length (replicate 255 (0xAB :: u8, 0x00 :: u8)) = 255"
    by (simp_all add: concrete)
  have e: "(unat (0x01 :: u8) + 254) mod nat (I2C_N_REG scenario_defs) = 1"
    "load_mask scenario_defs 1 = Inr 0x0F"
    "fst (last (replicate 255 (0xAB :: u8, 0x00 :: u8))) AND 0x0F = 0x0B"
    by (simp_all add: concrete load_mask_def)
  from update_counter_wraps [OF h, of "0x00" "0x00"] h show ?thesis
    unfolding e(1) by (auto simp: e(2,3))
qed

section \<open>Writes to a register that is entirely read-only\<close>

text \<open>
  C10. In state MASTER_WRITE, before the ACK cycle, when the write mask that applies to
  the register at the offset is 0x00: the handler returns, ACK (0x00) is loaded with SDA
  driven, the update counter is incremented, the offset advances (wrapping at
  \<^verbatim>\<open>I2C_N_REG\<close>) and the register array is exactly as it was. After the ACK slot and
  a STOP the stop poller returns the incremented counter, with the array still
  untouched; that value is not 0 unless the counter was 255.
\<close>

theorem read_only_register_write:
  assumes p: "post_ack s = 0" and st: "i2c_state s = I2C_STATE_MASTER_WRITE"
    and w: "well_formed d s" and r: "offset_in_range d s"
    and m: "load_mask d (i2c_offset s) = Inr 0x00"
  shows "\<exists>s'. USI_OVERFLOW_vect d s = Inr s' \<and>
      USIDR s' = 0x00 \<and> USI_DDR s' = USI_DDR s OR push_bit (I2C_SDA d) 1 \<and>
      i2c_update s' = i2c_update s + 1 \<and>
      unat (i2c_offset s') = (unat (i2c_offset s) + 1) mod nat (I2C_N_REG d) \<and>
      i2c_reg s' = i2c_reg s \<and>
      (\<exists>s''. run d [Overflow a, Stop_cond] s' = Inr s'' \<and> i2c_reg s'' = i2c_reg s \<and>
         fst (i2c_check_stop s'') = i2c_update s + 1 \<and>
         i2c_reg (snd (i2c_check_stop s'')) = i2c_reg s)"
proof -
  note i = well_formed_index [OF w r]
  have n: "I2C_N_REG d \<le> 256"
    using w by (simp add: well_formed_def)
  have r': "uint (i2c_offset s) < I2C_N_REG d"
    using r by (simp add: offset_in_range_def)
  define s1 where "s1 = finish_overflow d (0xD0 OR push_bit USICNT0 14) I2C_SDA_DIR_OUT
      (s\<lparr>i2c_reg := (i2c_reg s)[unat (i2c_offset s) :=
               (i2c_reg s ! unat (i2c_offset s) AND NOT 0) OR (USIDR s AND 0)],
          i2c_update := i2c_update s + 1, i2c_offset := i2c_offset s + 1,
          USIDR := 0, post_ack := 1\<rparr>)"
  have e1: "USI_OVERFLOW_vect d s = Inr s1"
    unfolding s1_def by (rule overflow_master_write [OF p st m i])
  have f1: "USIDR s1 = 0x00" "USI_DDR s1 = USI_DDR s OR push_bit (I2C_SDA d) 1"
    "i2c_update s1 = i2c_update s + 1" "i2c_reg s1 = i2c_reg s"
    "i2c_state s1 = I2C_STATE_MASTER_WRITE" "post_ack s1 = 1"
    "i2c_offset s1 = (if uint (i2c_offset s + 1) > I2C_N_REG d - 1 then 0 else i2c_offset s + 1)"
    using st by (simp_all add: s1_def finish_overflow_keeps)
  have o1: "unat (i2c_offset s1) = (unat (i2c_offset s) + 1) mod nat (I2C_N_REG d)"
    unfolding f1(7) using offset_wrap [OF n r'] by simp
  define s2 where "s2 = s1\<lparr>USIDR := a, USISR := (USISR s1 OR push_bit USIOIF 1) AND 0xF0\<rparr>"
  define s3 where "s3 = finish_overflow d 0xD0 I2C_SDA_DIR_IN (s2\<lparr>post_ack := 0\<rparr>)"
  define s4 where "s4 = s3\<lparr>USISR := USISR s3 OR push_bit USIPF 1\<rparr>"
  have e2: "step d (Overflow a) s1 = Inr s3"
    using overflow_post_ack_quiet [of s2 d] f1(5,6)
    by (simp add: s2_def s3_def)
  have e3: "step d Stop_cond s3 = Inr s4"
    by (simp add: s4_def)
  have e: "run d [Overflow a, Stop_cond] s1 = Inr s4"
    by (simp only: run.simps e2 e3 sum.case)
  have f4: "i2c_state s4 = I2C_STATE_MASTER_WRITE" "USISR s4 AND push_bit USIPF 1 \<noteq> 0"
    "i2c_update s4 = i2c_update s + 1" "i2c_reg s4 = i2c_reg s"
    unfolding s4_def stopped_fields
    using f1(3-5) stop_flag_raised by (simp_all add: s3_def s2_def finish_overflow_keeps)
  have "fst (i2c_check_stop s4) = i2c_update s + 1"
    using check_stop_at_stop(1) [OF f4(1,2)] f4(3) by simp
  moreover have "i2c_reg (snd (i2c_check_stop s4)) = i2c_reg s"
    by (simp add: check_stop_fields f4(4))
  ultimately show ?thesis
    using e1 f1(1-4) o1 e f4(4) by blast
qed

text \<open>
  With register 1 read-only, a write of 0xFF to it in the middle of a transaction
  changes no register and the stop poller returns 2.
\<close>

theorem read_only_register_write_witness:
  "post_ack (mid_write\<lparr>USIDR := 0xFF\<rparr>) = 0 \<and>
   i2c_state (mid_write\<lparr>USIDR := 0xFF\<rparr>) = I2C_STATE_MASTER_WRITE \<and>
   well_formed locked_defs (mid_write\<lparr>USIDR := 0xFF\<rparr>) \<and>
   offset_in_range locked_defs (mid_write\<lparr>USIDR := 0xFF\<rparr>) \<and>
   load_mask locked_defs (i2c_offset (mid_write\<lparr>USIDR := 0xFF\<rparr>)) = Inr 0x00 \<and>
   (\<exists>s'. USI_OVERFLOW_vect locked_defs (mid_write\<lparr>USIDR := 0xFF\<rparr>) = Inr s' \<and>
      USIDR s' = 0x00 \<and> i2c_update s' = 2 \<and> unat (i2c_offset s') = 0 \<and>
      i2c_reg s' = [0x00, 0x00] \<and>
      (\<exists>s''. run locked_defs [Overflow 0x00, Stop_cond] s' = Inr s'' \<and>
         i2c_reg s'' = [0x00, 0x00] \<and> fst (i2c_check_stop s'') = 2 \<and>
         i2c_reg (snd (i2c_check_stop s'')) = [0x00, 0x00]))"
proof -
  let ?s = "mid_write\<lparr>USIDR := 0xFF\<rparr>"
  have h: "post_ack ?s = 0" "i2c_state ?s = I2C_STATE_MASTER_WRITE"
    "well_formed locked_defs ?s" "offset_in_range locked_defs ?s"
    "load_mask locked_defs (i2c_offset ?s) = Inr 0x00"
    by (simp_all add: concrete load_mask_def)
  have e: "i2c_reg mid_write = [0, 0]" "i2c_offset mid_write = 1" "i2c_update mid_write = 1"
    "nat (I2C_N_REG locked_defs) = 2"
    by (simp_all add: concrete)
  from read_only_register_write [OF h, of "0x00"] h show ?thesis
    by (auto simp: e)
qed

end
